theory Spec2Isabelle
  imports Complex_Main "HOL-Library.AList" "HOL-Library.Multiset"
begin

unbundle bit_operations_syntax

section \<open>Python values: errors, dictionaries, numeric helpers\<close>

text \<open>
  The exceptions that the modelled code can raise. A method that raises returns
  \<open>Inl e\<close>; a method that completes returns \<open>Inr\<close> of the updated object.
\<close>

datatype py_error =
  KeyError | NotImplementedError | ZeroDivisionError | ValueError | OverflowError | AttributeError

text \<open>
  A Python \<open>dict\<close> with integer keys is an association list in insertion order.
  \<open>d[k] = v\<close> is \<open>AList.update k v d\<close> (an existing key keeps its place, a new key
  is appended), \<open>k in d\<close> is \<open>dict_in k d\<close>, \<open>d[k]\<close> is \<open>dict_get d k\<close> and
  \<open>del d[k]\<close> is \<open>dict_del k d\<close>; the last two raise \<open>KeyError\<close> on a missing key.
\<close>

type_synonym 'v dict = "(int \<times> 'v) list"

definition dict_in :: "int \<Rightarrow> 'v dict \<Rightarrow> bool" where
  "dict_in k d = (map_of d k \<noteq> None)"

definition dict_get :: "'v dict \<Rightarrow> int \<Rightarrow> py_error + 'v" where
  "dict_get d k = (case map_of d k of None \<Rightarrow> Inl KeyError | Some v \<Rightarrow> Inr v)"

definition dict_del :: "int \<Rightarrow> 'v dict \<Rightarrow> py_error + 'v dict" where
  "dict_del k d = (if dict_in k d then Inr (AList.delete k d) else Inl KeyError)"

definition dict_values :: "'v dict \<Rightarrow> 'v list" where
  "dict_values d = map snd d"

text \<open>
  \<open>for _t in range(lo, hi + 1): del d[_t]\<close>, over the keys as a list: the loop stops
  at the first missing key with \<open>KeyError\<close>.
\<close>

fun del_keys :: "int list \<Rightarrow> 'v dict \<Rightarrow> py_error + 'v dict" where
  "del_keys [] d = Inr d"
| "del_keys (k # ks) d =
     (case dict_del k d of Inl e \<Rightarrow> Inl e | Inr d' \<Rightarrow> del_keys ks d')"

text \<open>\<open>a / b\<close> on Python numbers (true division): a zero divisor raises.\<close>

definition py_truediv :: "real \<Rightarrow> real \<Rightarrow> py_error + real" where
  "py_truediv a b = (if b = 0 then Inl ZeroDivisionError else Inr (a / b))"

text \<open>
  \<open>int(np.log2(x))\<close> for an integer \<open>x\<close>: \<open>np.log2\<close> yields \<open>-inf\<close> at 0 and
  \<open>nan\<close> below, which \<open>int\<close> refuses with \<open>OverflowError\<close> and \<open>ValueError\<close>; for
  positive \<open>x\<close> the result is the floor of the binary logarithm (the rounding of the
  floating-point logarithm is not modelled).
\<close>

fun log2_floor :: "nat \<Rightarrow> nat" where
  "log2_floor n = (if n < 2 then 0 else Suc (log2_floor (n div 2)))"

definition int_np_log2 :: "int \<Rightarrow> py_error + nat" where
  "int_np_log2 x =
     (if x = 0 then Inl OverflowError
      else if x < 0 then Inl ValueError
      else Inr (log2_floor (nat x)))"

text \<open>
  \<open>int(np.sqrt(x))\<close> for an integer \<open>x\<close>: \<open>nan\<close> for negative \<open>x\<close>, refused by
  \<open>int\<close>; otherwise the integer square root (again without floating-point rounding).
\<close>

primrec sqrt_floor :: "nat \<Rightarrow> nat" where
  "sqrt_floor 0 = 0"
| "sqrt_floor (Suc n) =
     (let r = sqrt_floor n in if (r + 1) * (r + 1) \<le> Suc n then r + 1 else r)"

definition int_np_sqrt :: "int \<Rightarrow> py_error + int" where
  "int_np_sqrt x = (if x < 0 then Inl ValueError else Inr (int (sqrt_floor (nat x))))"

section \<open>The noise source\<close>

text \<open>
  Modelled from the spec: the noise generator class is not part of the sources; the
  stores only read its attributes \<open>eps\<close>, \<open>delta\<close>, \<open>T\<close>, \<open>noise_type\<close> and call
  \<open>laplacian(scale, sens)\<close>, \<open>generate_noise_tree(eps, delta, T)\<close> and \<open>zeros()\<close>.
  Noise values are elements of a commutative additive monoid \<open>'n\<close> (numbers or
  arrays of one fixed shape under elementwise addition); \<open>zeros()\<close> and \<open>np.zeros\<close>
  are its \<open>0\<close>. Sampling is made deterministic by an outcome table: \<open>sampler g k r\<close>
  is the value returned by the \<open>k\<close>-th draw of the run when that draw is the request
  \<open>r\<close>, and \<open>rng g\<close> counts the draws made so far.
\<close>

datatype draw =
  Laplacian real "int option"
| NoiseTree real real int

record 'n noise_generator =
  eps :: real
  delta :: real
  T :: int
  noise_type :: string
  sampler :: "nat \<Rightarrow> draw \<Rightarrow> 'n"
  rng :: nat

definition sample :: "'n noise_generator \<Rightarrow> draw \<Rightarrow> 'n \<times> 'n noise_generator" where
  "sample g r = (sampler g (rng g) r, g\<lparr>rng := Suc (rng g)\<rparr>)"

definition laplacian :: "'n noise_generator \<Rightarrow> real \<Rightarrow> int option \<Rightarrow> 'n \<times> 'n noise_generator" where
  "laplacian g scale sens = sample g (Laplacian scale sens)"

definition generate_noise_tree ::
  "'n noise_generator \<Rightarrow> real \<Rightarrow> real \<Rightarrow> int \<Rightarrow> 'n \<times> 'n noise_generator" where
  "generate_noise_tree g e dl horizon = sample g (NoiseTree e dl horizon)"

definition zeros :: "'n::comm_monoid_add noise_generator \<Rightarrow> 'n" where
  "zeros g = 0"

section \<open>Partial sums\<close>

record 'n NoisePartialSum =
  start :: int
  psize :: int
  noise :: 'n

definition mk_psum :: "int \<Rightarrow> int \<Rightarrow> 'n \<Rightarrow> 'n NoisePartialSum" where
  "mk_psum st sz nz = \<lparr>start = st, psize = sz, noise = nz\<rparr>"

section \<open>The class NoisePartialSumStore\<close>

record 'n psum_store =
  noise_generator :: "'n noise_generator"
  store :: "'n NoisePartialSum dict"

record 'n NoisePartialSumStore = "'n psum_store" +
  release_method :: string
  is_theta_level :: bool
  START_TIME :: int

definition init_store ::
  "'n noise_generator \<Rightarrow> string \<Rightarrow> bool \<Rightarrow> py_error + 'n NoisePartialSumStore" where
  "init_store g method theta =
     (if method \<noteq> ''tree'' \<and> noise_type g \<noteq> ''laplacian'' then Inl NotImplementedError
      else if method \<notin> set [''tree'', ''every'', ''once'', ''sqrt'', ''hybrid'']
        then Inl NotImplementedError
      else Inr \<lparr>noise_generator = g, store = [], release_method = method,
                is_theta_level = theta, START_TIME = 1\<rparr>)"

definition is_power_of_two :: "int \<Rightarrow> bool" where
  "is_power_of_two val = ((val AND (val - 1)) = 0 \<and> val > 0)"

definition consolidate_for_once ::
  "'n NoisePartialSumStore \<Rightarrow> int \<Rightarrow> py_error + 'n NoisePartialSumStore" where
  "consolidate_for_once s time =
     (if time \<noteq> START_TIME s
      then (case dict_del time (store s) of
              Inl e \<Rightarrow> Inl e
            | Inr d \<Rightarrow> Inr (s\<lparr>store := d\<rparr>))
      else Inr s)"

definition consolidate_for_every ::
  "'n::comm_monoid_add NoisePartialSumStore \<Rightarrow> int \<Rightarrow> py_error + 'n NoisePartialSumStore" where
  "consolidate_for_every s time =
     (case dict_get (store s) (START_TIME s) of
        Inl e \<Rightarrow> Inl e
      | Inr p0 \<Rightarrow>
          (case dict_get (store s) time of
             Inl e \<Rightarrow> Inl e
           | Inr pt \<Rightarrow>
               let current_total_noise = noise p0;
                   newly_added_noise = noise pt;
                   new_total_noise = current_total_noise + newly_added_noise;
                   new_psum_size = time;
                   d = AList.update (START_TIME s) (mk_psum 1 new_psum_size new_total_noise) (store s)
               in if time \<noteq> START_TIME s
                  then (case dict_del time d of
                          Inl e \<Rightarrow> Inl e
                        | Inr d' \<Rightarrow> Inr (s\<lparr>store := d'\<rparr>))
                  else Inr (s\<lparr>store := d\<rparr>)))"

definition consolidate_for_sqrt ::
  "'n::comm_monoid_add NoisePartialSumStore \<Rightarrow> int \<Rightarrow> py_error + 'n NoisePartialSumStore" where
  "consolidate_for_sqrt s time =
     (let e = eps (noise_generator s) in
      case int_np_sqrt (T (noise_generator s)) of
        Inl err \<Rightarrow> Inl err
      | Inr block_size \<Rightarrow>
          let block_start = time - block_size + 1 in
          if dict_in block_start (store s) then
            (case del_keys [block_start..time] (store s) of
               Inl err \<Rightarrow> Inl err
             | Inr d \<Rightarrow>
                 let (block_noise, g) = laplacian (noise_generator s) (2 * e) None in
                 if block_start = START_TIME s then
                   Inr (s\<lparr>noise_generator := g,
                           store := AList.update (START_TIME s)
                                      (mk_psum (START_TIME s) block_size block_noise) d\<rparr>)
                 else
                   (case dict_get d (START_TIME s) of
                      Inl err \<Rightarrow> Inl err
                    | Inr p0 \<Rightarrow>
                        Inr (s\<lparr>noise_generator := g,
                                store := AList.update (START_TIME s)
                                           (mk_psum (START_TIME s) (psize p0 + block_size)
                                              (noise p0 + block_noise)) d\<rparr>)))
          else Inr s)"

lemma length_delete_present:
  "dict_in k d \<Longrightarrow> length (AList.delete k d) < length d"
proof (induction d)
  case Nil
  then show ?case by (simp add: dict_in_def)
next
  case (Cons a d)
  show ?case
  proof (cases "fst a = k")
    case True
    have "length (filter (\<lambda>(k', _). k \<noteq> k') d) \<le> length d"
      by (rule length_filter_le)
    with True show ?thesis
      by (cases a) (simp add: AList.delete_eq less_Suc_eq_le)
  next
    case False
    with Cons.prems have "dict_in k d"
      by (cases a) (simp add: dict_in_def)
    with Cons.IH False show ?thesis
      by (simp add: AList.delete_eq)
  qed
qed

lemma length_merge_step:
  fixes d :: "'v dict"
  assumes "map_of d time = Some p" and "map_of d prev = Some q"
  shows "length (AList.delete time (AList.update prev v d)) < length d"
proof -
  have in_prev: "prev \<in> fst ` set d"
    using assms(2) by (metis domI dom_map_of_conv_image_fst)
  have "map_of (AList.update prev v d) time \<noteq> None"
    using assms(1) by (simp add: update_conv')
  then have "dict_in time (AList.update prev v d)"
    by (simp add: dict_in_def)
  then have "length (AList.delete time (AList.update prev v d)) < length (AList.update prev v d)"
    by (rule length_delete_present)
  moreover have "length (AList.update prev v d) = length d"
    using in_prev update_keys [of prev v d] by (metis length_map list.set_map)
  ultimately show ?thesis by simp
qed

function consolidate_for_tree ::
  "'n NoisePartialSumStore \<Rightarrow> int \<Rightarrow> py_error + 'n NoisePartialSumStore" where
  "consolidate_for_tree s time =
     (case map_of (store s) time of
        None \<Rightarrow> Inl KeyError
      | Some p \<Rightarrow>
          let prev_p_sum_time = start p - psize p in
          (case map_of (store s) prev_p_sum_time of
             None \<Rightarrow> Inr s
           | Some q \<Rightarrow>
               if psize p = psize q then
                 let new_size = psize p * 2;
                     e = eps (noise_generator s);
                     dl = delta (noise_generator s);
                     horizon = T (noise_generator s);
                     (new_noise, g) = generate_noise_tree (noise_generator s) e dl horizon;
                     d = AList.update prev_p_sum_time
                           (mk_psum prev_p_sum_time new_size new_noise) (store s)
                 in consolidate_for_tree
                      (s\<lparr>noise_generator := g, store := AList.delete time d\<rparr>)
                      prev_p_sum_time
               else Inr s))"
  by pat_completeness auto
termination
  by (relation "measure (\<lambda>(s, time). length (store s))")
     (auto simp: length_merge_step)

function consolidate_for_hybrid ::
  "'n::comm_monoid_add NoisePartialSumStore \<Rightarrow> int \<Rightarrow> py_error + 'n NoisePartialSumStore" where
  "consolidate_for_hybrid s time =
     (if is_power_of_two time \<and> time > START_TIME s then
        (case dict_get (store s) (START_TIME s) of
           Inl err \<Rightarrow> Inl err
         | Inr p0 \<Rightarrow>
             (case dict_get (store s) time of
                Inl err \<Rightarrow> Inl err
              | Inr pt \<Rightarrow>
                  let new_size = time;
                      new_noise = noise p0 + noise pt
                  in Inr (s\<lparr>store := [(START_TIME s, mk_psum (START_TIME s) new_size new_noise)]\<rparr>)))
      else
        (case map_of (store s) time of
           None \<Rightarrow> Inl KeyError
         | Some p \<Rightarrow>
             let prev_p_sum_time = start p - psize p in
             (case map_of (store s) prev_p_sum_time of
                None \<Rightarrow> Inr s
              | Some q \<Rightarrow>
                  if psize p = psize q then
                    let new_size = psize p * 2;
                        e = eps (noise_generator s);
                        dl = delta (noise_generator s)
                    in (case int_np_log2 time of
                          Inl err \<Rightarrow> Inl err
                        | Inr k \<Rightarrow>
                            let horizon = 2 ^ k;
                                (new_noise, g) = generate_noise_tree (noise_generator s) e dl horizon;
                                d = AList.update prev_p_sum_time
                                      (mk_psum prev_p_sum_time new_size new_noise) (store s)
                            in consolidate_for_hybrid
                                 (s\<lparr>noise_generator := g, store := AList.delete time d\<rparr>)
                                 prev_p_sum_time)
                  else Inr s)))"
  by pat_completeness auto
termination
  by (relation "measure (\<lambda>(s, time). length (store s))")
     (auto simp: length_merge_step)

definition consolidate_store ::
  "'n::comm_monoid_add NoisePartialSumStore \<Rightarrow> int \<Rightarrow> py_error + 'n NoisePartialSumStore" where
  "consolidate_store s time =
     (if release_method s = ''once'' then consolidate_for_once s time
      else if release_method s = ''every'' then consolidate_for_every s time
      else if release_method s = ''sqrt'' then consolidate_for_sqrt s time
      else if release_method s = ''tree'' then consolidate_for_tree s time
      else if release_method s = ''hybrid'' then consolidate_for_hybrid s time
      else Inr s)"

text \<open>
  The noise of the new unit partial sum, as \<open>add_noise\<close> chooses it before the
  insertion. In the hybrid branch \<open>time_horizon\<close> is \<open>2 ^ k\<close>, so that
  \<open>np.log2(time_horizon)\<close> is \<open>k\<close>.
\<close>

definition add_noise_draw ::
  "'n::comm_monoid_add NoisePartialSumStore \<Rightarrow> int \<Rightarrow> py_error + ('n \<times> 'n noise_generator)" where
  "add_noise_draw s time =
     (let g = noise_generator s;
          horizon = T g;
          e = eps g;
          dl = delta g;
          nz = zeros g
      in if release_method s = ''once'' then
           (if length (store s) = 0 then
              (case py_truediv e (real_of_int horizon) of
                 Inl err \<Rightarrow> Inl err
               | Inr scale \<Rightarrow> Inr (laplacian g scale None))
            else Inr (nz, g))
         else if release_method s = ''every'' then Inr (laplacian g e None)
         else if release_method s = ''sqrt'' then Inr (laplacian g e None)
         else if release_method s = ''tree'' then Inr (generate_noise_tree g e dl horizon)
         else if release_method s = ''hybrid'' then
           (if is_power_of_two time then Inr (laplacian g (e / 2) None)
            else (case int_np_log2 time of
                    Inl err \<Rightarrow> Inl err
                  | Inr k \<Rightarrow> Inr (laplacian g ((e / 2) / real k) None)))
         else Inr (nz, g))"

definition add_noise ::
  "'n::comm_monoid_add NoisePartialSumStore \<Rightarrow> int \<Rightarrow> py_error + 'n NoisePartialSumStore" where
  "add_noise s time =
     (case add_noise_draw s time of
        Inl err \<Rightarrow> Inl err
      | Inr (nz, g) \<Rightarrow>
          consolidate_store
            (s\<lparr>noise_generator := g,
               store := AList.update time (mk_psum time 1 nz) (store s)\<rparr>) time)"

definition add_noise_custom ::
  "'n::comm_monoid_add NoisePartialSumStore \<Rightarrow> 'n \<Rightarrow> int \<Rightarrow> py_error + 'n NoisePartialSumStore" where
  "add_noise_custom s N time =
     consolidate_store (s\<lparr>store := AList.update time (mk_psum time 1 N) (store s)\<rparr>) time"

text \<open>
  \<open>release_noise\<close> returns the accumulated value; the object after the call is
  returned with it, so that what the call does to the store can be stated.
\<close>

definition release_noise ::
  "'n::comm_monoid_add NoisePartialSumStore \<Rightarrow> 'n \<times> 'n NoisePartialSumStore" where
  "release_noise s =
     (foldl (\<lambda>N p_sum. N + noise p_sum) (zeros (noise_generator s)) (dict_values (store s)), s)"

text \<open>\<open>n\<close> calls of \<open>add_noise\<close> at the times \<open>1, \<dots>, n\<close>; the first exception ends the run.\<close>

fun add_noise_run ::
  "'n::comm_monoid_add NoisePartialSumStore \<Rightarrow> nat \<Rightarrow> py_error + 'n NoisePartialSumStore" where
  "add_noise_run s 0 = Inr s"
| "add_noise_run s (Suc n) =
     (case add_noise_run s n of
        Inl err \<Rightarrow> Inl err
      | Inr s' \<Rightarrow> add_noise s' (int (Suc n)))"

section \<open>The class hierarchy of the second implementation\<close>

text \<open>
  The base class and its subclasses \<open>OncePartialSumStore\<close>, \<open>EveryPartialSumStore\<close>
  and \<open>TreePartialSumStore\<close> have the same attributes and differ in \<open>consolidate\<close>
  only; each method is named after its class. \<open>add\<close> receives the noise of the
  new unit partial sum from the caller.
\<close>

record 'n NoisePartialSumStore_base = "'n psum_store" +
  START :: int

definition init_base :: "'n noise_generator \<Rightarrow> 'n NoisePartialSumStore_base" where
  "init_base g = \<lparr>noise_generator = g, store = [], START = 1\<rparr>"

definition base_consolidate ::
  "'n NoisePartialSumStore_base \<Rightarrow> py_error + 'n NoisePartialSumStore_base" where
  "base_consolidate s = Inr s"

definition base_add ::
  "'n NoisePartialSumStore_base \<Rightarrow> int \<Rightarrow> 'n \<Rightarrow> py_error + 'n NoisePartialSumStore_base" where
  "base_add s time nz =
     base_consolidate (s\<lparr>store := AList.update time (mk_psum time 1 nz) (store s)\<rparr>)"

text \<open>
  \<open>release\<close> of the base class, inherited by the three subclasses. Both
  \<open>np.zeros(shape=(1, 1))\<close> and \<open>np.zeros(shape=noise_shape)\<close> are the zero of the
  noise type.
\<close>

definition base_release ::
  "'n::comm_monoid_add NoisePartialSumStore_base \<Rightarrow> 'n \<times> 'n NoisePartialSumStore_base" where
  "base_release s =
     (if length (store s) = 0 then (0, s)
      else (foldl (\<lambda>total_noise psum. total_noise + noise psum) 0 (dict_values (store s)), s))"

definition OncePartialSumStore_consolidate ::
  "'n NoisePartialSumStore_base \<Rightarrow> py_error + 'n NoisePartialSumStore_base" where
  "OncePartialSumStore_consolidate s =
     (case map_of (store s) (START s) of
        Some p \<Rightarrow> Inr (s\<lparr>store := [(START s, p)]\<rparr>)
      | None \<Rightarrow> Inr (s\<lparr>store := []\<rparr>))"

definition OncePartialSumStore_add ::
  "'n NoisePartialSumStore_base \<Rightarrow> int \<Rightarrow> 'n \<Rightarrow> py_error + 'n NoisePartialSumStore_base" where
  "OncePartialSumStore_add s time nz =
     OncePartialSumStore_consolidate
       (s\<lparr>store := AList.update time (mk_psum time 1 nz) (store s)\<rparr>)"

definition EveryPartialSumStore_consolidate ::
  "'n::comm_monoid_add NoisePartialSumStore_base \<Rightarrow> py_error + 'n NoisePartialSumStore_base" where
  "EveryPartialSumStore_consolidate s =
     (if length (store s) = 0 then Inr s
      else
        let total_noise = foldl (\<lambda>total_noise psum. total_noise + noise psum) 0
                            (dict_values (store s))
        in Inr (s\<lparr>store := [(START s, mk_psum (START s) 1 total_noise)]\<rparr>))"

definition EveryPartialSumStore_add ::
  "'n::comm_monoid_add NoisePartialSumStore_base \<Rightarrow> int \<Rightarrow> 'n
     \<Rightarrow> py_error + 'n NoisePartialSumStore_base" where
  "EveryPartialSumStore_add s time nz =
     EveryPartialSumStore_consolidate
       (s\<lparr>store := AList.update time (mk_psum time 1 nz) (store s)\<rparr>)"

text \<open>\<open>max\<close> of a Python list raises \<open>ValueError\<close> on the empty list.\<close>

definition py_max :: "int list \<Rightarrow> py_error + int" where
  "py_max xs = (case xs of [] \<Rightarrow> Inl ValueError | x # ys \<Rightarrow> Inr (fold max ys x))"

text \<open>
  The scale \<open>eps / np.log2(T)\<close> is a quotient of reals here; the floating-point
  values \<open>inf\<close> and \<open>nan\<close> that NumPy yields for \<open>T \<le> 1\<close> are not modelled.
\<close>

function TreePartialSumStore_consolidate_helper ::
  "'n NoisePartialSumStore_base \<Rightarrow> int \<Rightarrow> py_error + 'n NoisePartialSumStore_base" where
  "TreePartialSumStore_consolidate_helper s time =
     (case map_of (store s) time of
        None \<Rightarrow> Inl KeyError
      | Some p \<Rightarrow>
          let prev_p_sum_time = start p - psize p in
          (case map_of (store s) prev_p_sum_time of
             None \<Rightarrow> Inr s
           | Some q \<Rightarrow>
               if psize p = psize q then
                 let new_size = psize p * 2;
                     e = eps (noise_generator s);
                     dl = delta (noise_generator s);
                     horizon = T (noise_generator s);
                     right_time_bound = start q + new_size - 1;
                     (new_noise, g) = laplacian (noise_generator s)
                                        (e / log 2 (real_of_int horizon)) (Some right_time_bound);
                     d = AList.update prev_p_sum_time
                           (mk_psum prev_p_sum_time new_size new_noise) (store s)
                 in TreePartialSumStore_consolidate_helper
                      (s\<lparr>noise_generator := g, store := AList.delete time d\<rparr>)
                      prev_p_sum_time
               else Inr s))"
  by pat_completeness auto
termination
  by (relation "measure (\<lambda>(s, time). length (store s))")
     (auto simp: length_merge_step)

definition TreePartialSumStore_consolidate ::
  "'n NoisePartialSumStore_base \<Rightarrow> py_error + 'n NoisePartialSumStore_base" where
  "TreePartialSumStore_consolidate s =
     (case py_max (map start (dict_values (store s))) of
        Inl err \<Rightarrow> Inl err
      | Inr max_psum_start \<Rightarrow> TreePartialSumStore_consolidate_helper s max_psum_start)"

definition TreePartialSumStore_add ::
  "'n NoisePartialSumStore_base \<Rightarrow> int \<Rightarrow> 'n \<Rightarrow> py_error + 'n NoisePartialSumStore_base" where
  "TreePartialSumStore_add s time nz =
     TreePartialSumStore_consolidate
       (s\<lparr>store := AList.update time (mk_psum time 1 nz) (store s)\<rparr>)"

subsection \<open>TwoLevelPartialSumStore\<close>

record 'n TwoLevelPartialSumStore = "'n NoisePartialSumStore_base" +
  block_size :: int
  block_level_store :: "'n NoisePartialSum option"
  single_level_store :: "'n NoisePartialSum option"
  new_psum :: "'n NoisePartialSum option"

definition init_two_level :: "'n noise_generator \<Rightarrow> int \<Rightarrow> 'n TwoLevelPartialSumStore" where
  "init_two_level g bs =
     \<lparr>noise_generator = g, store = [], START = 1, block_size = bs,
      block_level_store = None, single_level_store = None, new_psum = None\<rparr>"

definition TwoLevelPartialSumStore_consolidate ::
  "'n::comm_monoid_add TwoLevelPartialSumStore \<Rightarrow> py_error + 'n TwoLevelPartialSumStore" where
  "TwoLevelPartialSumStore_consolidate s =
     (case new_psum s of
        None \<Rightarrow> Inl AttributeError
      | Some np \<Rightarrow>
          let single = (case single_level_store s of
                          Some sl \<Rightarrow> mk_psum (start sl) (psize sl + 1) (noise sl + noise np)
                        | None \<Rightarrow> mk_psum (start np) (psize np) (noise np));
              s1 = s\<lparr>single_level_store := Some single, new_psum := None\<rparr>
          in if psize single \<ge> block_size s1 then
               let new_noise_sens = start single + psize single - 1;
                   (new_noise, g) = laplacian (noise_generator s1)
                                      (2 * eps (noise_generator s1)) (Some new_noise_sens);
                   block = (case block_level_store s1 of
                              Some bl \<Rightarrow> mk_psum (start bl) (psize bl + psize single)
                                           (noise bl + new_noise)
                            | None \<Rightarrow> mk_psum (START s1) (psize single) new_noise)
               in Inr (s1\<lparr>noise_generator := g, block_level_store := Some block,
                          single_level_store := None\<rparr>)
             else Inr s1)"

definition TwoLevelPartialSumStore_add ::
  "'n::comm_monoid_add TwoLevelPartialSumStore \<Rightarrow> int \<Rightarrow> 'n
     \<Rightarrow> py_error + 'n TwoLevelPartialSumStore" where
  "TwoLevelPartialSumStore_add s time nz =
     TwoLevelPartialSumStore_consolidate (s\<lparr>new_psum := Some (mk_psum time 1 nz)\<rparr>)"


subsection \<open>HybridPartialSumStore\<close>

record 'n HybridPartialSumStore = "'n NoisePartialSumStore_base" +
  tree_store :: "'n NoisePartialSum dict"
  log_store :: "'n NoisePartialSum option"
  new_noise :: "'n NoisePartialSum option"


text \<open>
  In the helper \<open>T\<close> is \<open>2 ^ k\<close> with \<open>k = int(np.log2(time))\<close>, so that
  \<open>np.log2(T)\<close> is \<open>k\<close>; the scale is a quotient of reals, and the value \<open>inf\<close>
  that NumPy yields for \<open>k = 0\<close> is not modelled.
\<close>

function HybridPartialSumStore_consolidate_helper ::
  "'n HybridPartialSumStore \<Rightarrow> int \<Rightarrow> py_error + 'n HybridPartialSumStore" where
  "HybridPartialSumStore_consolidate_helper s time =
     (case map_of (tree_store s) time of
        None \<Rightarrow> Inl KeyError
      | Some p \<Rightarrow>
          let prev_p_sum_time = start p - psize p in
          (case map_of (tree_store s) prev_p_sum_time of
             None \<Rightarrow> Inr s
           | Some q \<Rightarrow>
               if psize p = psize q then
                 let new_size = psize p * 2;
                     e = eps (noise_generator s)
                 in (case int_np_log2 time of
                       Inl err \<Rightarrow> Inl err
                     | Inr k \<Rightarrow>
                         let right_time_bound = start q + new_size - 1;
                             (new_noise, g) = laplacian (noise_generator s)
                                                (e / real k) (Some right_time_bound);
                             d = AList.update prev_p_sum_time
                                   (mk_psum prev_p_sum_time new_size new_noise) (tree_store s)
                         in HybridPartialSumStore_consolidate_helper
                              (s\<lparr>noise_generator := g, tree_store := AList.delete time d\<rparr>)
                              prev_p_sum_time)
               else Inr s))"
  by pat_completeness auto
termination
  by (relation "measure (\<lambda>(s, time). length (tree_store s))")
     (auto simp: length_merge_step)

definition HybridPartialSumStore_consolidate ::
  "'n::comm_monoid_add HybridPartialSumStore \<Rightarrow> py_error + 'n HybridPartialSumStore" where
  "HybridPartialSumStore_consolidate s =
     (case new_noise s of
        None \<Rightarrow> Inl AttributeError
      | Some nn \<Rightarrow>
          let time = start nn;
              nz = noise nn
          in if time = START s then
               Inr (s\<lparr>log_store := Some (mk_psum time 1 nz), new_noise := None\<rparr>)
             else if is_power_of_two time then
               (case log_store s of
                  None \<Rightarrow> Inl AttributeError
                | Some ls \<Rightarrow>
                    let nn' = noise ls + nz
                    in Inr (s\<lparr>log_store := Some (mk_psum (START s) time nn'),
                               tree_store := [], new_noise := None\<rparr>))
             else
               (case HybridPartialSumStore_consolidate_helper
                       (s\<lparr>tree_store := AList.update time (mk_psum time 1 nz) (tree_store s)\<rparr>)
                       time of
                  Inl err \<Rightarrow> Inl err
                | Inr s' \<Rightarrow> Inr (s'\<lparr>new_noise := None\<rparr>)))"

definition HybridPartialSumStore_add ::
  "'n::comm_monoid_add HybridPartialSumStore \<Rightarrow> int \<Rightarrow> 'n
     \<Rightarrow> py_error + 'n HybridPartialSumStore" where
  "HybridPartialSumStore_add s time nz =
     HybridPartialSumStore_consolidate (s\<lparr>new_noise := Some (mk_psum time 1 nz)\<rparr>)"


text \<open>
  \<open>n\<close> calls of an \<open>add\<close> method at the times \<open>1, \<dots>, n\<close>, the caller passing
  the noise \<open>xs k\<close> at time \<open>k\<close>.
\<close>

fun run_adds ::
  "('s \<Rightarrow> int \<Rightarrow> 'n \<Rightarrow> py_error + 's) \<Rightarrow> (nat \<Rightarrow> 'n) \<Rightarrow> 's \<Rightarrow> nat \<Rightarrow> py_error + 's" where
  "run_adds add xs s 0 = Inr s"
| "run_adds add xs s (Suc n) =
     (case run_adds add xs s n of
        Inl err \<Rightarrow> Inl err
      | Inr s' \<Rightarrow> add s' (int (Suc n)) (xs (Suc n)))"

section \<open>Derived notions used in the statements\<close>

text \<open>A noise source whose every draw returns the same value \<open>c\<close>.\<close>

definition const_generator :: "'n \<Rightarrow> 'n noise_generator" where
  "const_generator c =
     \<lparr>eps = 1, delta = 1 / 10, T = 16, noise_type = ''laplacian'', sampler = (\<lambda>k r. c), rng = 0\<rparr>"

text \<open>
  All partial sums a two-level store holds: those of the inherited dictionary and the
  two level entries.
\<close>

definition two_level_entries :: "'n TwoLevelPartialSumStore \<Rightarrow> 'n NoisePartialSum list" where
  "two_level_entries s =
     dict_values (store s)
     @ (case block_level_store s of None \<Rightarrow> [] | Some p \<Rightarrow> [p])
     @ (case single_level_store s of None \<Rightarrow> [] | Some p \<Rightarrow> [p])"

text \<open>The number of unit sums the single-level entry covers once one more is folded in.\<close>

definition single_count :: "'n TwoLevelPartialSumStore \<Rightarrow> int" where
  "single_count s = (case single_level_store s of None \<Rightarrow> 1 | Some sl \<Rightarrow> psize sl + 1)"

text \<open>
  The dictionary that holds, from the start time \<open>st\<close> on, one block of size \<open>2 ^ k\<close>
  and noise \<open>x\<close> for each pair \<open>(k, x)\<close> of the list, each block beginning where the
  one before it ends; \<open>layout_size\<close> is the number of time steps the blocks cover.
\<close>

fun tree_layout :: "int \<Rightarrow> (nat \<times> 'n) list \<Rightarrow> 'n NoisePartialSum dict" where
  "tree_layout st [] = []"
| "tree_layout st ((k, x) # kxs) = (st, mk_psum st (2 ^ k) x) # tree_layout (st + 2 ^ k) kxs"

definition layout_size :: "(nat \<times> 'n) list \<Rightarrow> int" where
  "layout_size kxs = sum_list (map (\<lambda>(k, x). 2 ^ k) kxs)"

section \<open>The numeric helpers compute the floors they stand for\<close>

lemma sqrt_floor_bounds:
  "sqrt_floor n * sqrt_floor n \<le> n \<and> n < (sqrt_floor n + 1) * (sqrt_floor n + 1)"
proof (induction n)
  case 0
  show ?case by simp
next
  case (Suc n)
  define r where "r = sqrt_floor n"
  from Suc have lo: "r * r \<le> n" and hi: "n < (r + 1) * (r + 1)"
    by (simp_all add: r_def)
  show ?case
  proof (cases "(r + 1) * (r + 1) \<le> Suc n")
    case True
    then have eq: "sqrt_floor (Suc n) = r + 1" by (simp add: r_def Let_def)
    have "Suc n \<le> (r + 1) * (r + 1)" using hi by simp
    also have "\<dots> < (r + 1 + 1) * (r + 1 + 1)" by (simp add: algebra_simps)
    finally show ?thesis using True unfolding eq by simp
  next
    case False
    then have eq: "sqrt_floor (Suc n) = r" by (simp add: r_def Let_def)
    from False lo show ?thesis unfolding eq by simp
  qed
qed

lemma log2_floor_bounds:
  "0 < n \<Longrightarrow> 2 ^ log2_floor n \<le> n \<and> n < 2 ^ Suc (log2_floor n)"
proof (induction n rule: log2_floor.induct)
  case (1 n)
  show ?case
  proof (cases "n < 2")
    case True
    with "1.prems" have "n = 1" by simp
    then show ?thesis by simp
  next
    case False
    then have pos: "0 < n div 2" by simp
    from "1.IH" [OF False pos]
    have lo: "2 ^ log2_floor (n div 2) \<le> n div 2" and hi: "n div 2 < 2 ^ Suc (log2_floor (n div 2))"
      by simp_all
    have eq: "log2_floor n = Suc (log2_floor (n div 2))"
      using False by (subst log2_floor.simps) simp
    have "2 * 2 ^ log2_floor (n div 2) \<le> n" using lo by linarith
    moreover have "n < 2 * 2 ^ Suc (log2_floor (n div 2))" using hi by linarith
    ultimately show ?thesis unfolding eq by simp
  qed
qed

section \<open>Release\<close>




section \<open>Construction\<close>

text \<open>
  C6, as the code has it. Construction fails with \<open>NotImplementedError\<close> exactly when
  the method is outside \<open>tree\<close>, \<open>every\<close>, \<open>once\<close>, \<open>sqrt\<close>, \<open>hybrid\<close>, or the method
  is not \<open>tree\<close> and the noise source is not of type \<open>laplacian\<close>; otherwise it yields
  the store with an empty dictionary and start time 1. The tree method accepts every
  noise type.
\<close>

theorem init_store_result:
  "init_store g method theta =
     (if method \<in> {''tree'', ''every'', ''once'', ''sqrt'', ''hybrid''}
         \<and> (method = ''tree'' \<or> noise_type g = ''laplacian'')
      then Inr \<lparr>noise_generator = g, store = [], release_method = method,
                is_theta_level = theta, START_TIME = 1\<rparr>
      else Inl NotImplementedError)"
  unfolding init_store_def by simp

theorem init_store_result_witness:
  "init_store \<lparr>eps = 1, delta = 0, T = 4, noise_type = ''gaussian'',
               sampler = (\<lambda>k r. 0::int), rng = 0\<rparr> ''every'' False
     = Inl NotImplementedError"
  using init_store_result [of "\<lparr>eps = 1, delta = 0, T = 4, noise_type = ''gaussian'',
               sampler = (\<lambda>k r. 0::int), rng = 0\<rparr>" "''every''" False]
  by simp

text \<open>
  The claim C6 as worded fails: the tree method with a noise source of type
  \<open>gaussian\<close> constructs a store.
\<close>

theorem init_store_tree_non_laplacian:
  "init_store \<lparr>eps = 1, delta = 0, T = 4, noise_type = ''gaussian'',
               sampler = (\<lambda>k r. 0::int), rng = 0\<rparr> ''tree'' False
     = Inr \<lparr>noise_generator = \<lparr>eps = 1, delta = 0, T = 4, noise_type = ''gaussian'',
                                sampler = (\<lambda>k r. 0::int), rng = 0\<rparr>,
            store = [], release_method = ''tree'', is_theta_level = False, START_TIME = 1\<rparr>"
  by (simp add: init_store_def)

section \<open>The tree scenario\<close>

text \<open>
  C9. Tree method, every draw (unit inserts and merges) returning 1: after the adds at
  times 1 to 7 the stored sizes are 4, 2, 1 and \<open>release_noise\<close> returns 3.
\<close>

theorem tree_seven_adds:
  "(case init_store \<lparr>eps = e, delta = dl, T = h, noise_type = nt,
                     sampler = (\<lambda>k r. 1::int), rng = 0\<rparr> ''tree'' theta of
      Inl err \<Rightarrow> None
    | Inr s0 \<Rightarrow>
        (case add_noise_run s0 7 of
           Inl err \<Rightarrow> None
         | Inr s \<Rightarrow> Some (map psize (dict_values (store s)), fst (release_noise s))))
   = Some ([4, 2, 1], 3)"
  by (simp add: init_store_def eval_nat_numeral add_noise_def add_noise_draw_def
      consolidate_store_def generate_noise_tree_def sample_def mk_psum_def
      release_noise_def zeros_def dict_values_def)

section \<open>The time key of an add\<close>

lemma add_noise_ignores_entry_at_time:
  fixes r :: "'m::comm_monoid_add NoisePartialSumStore"
  shows "add_noise (r\<lparr>store := AList.update t p (store r)\<rparr>) t
        = add_noise (r\<lparr>store := AList.update t q (store r)\<rparr>) t"
proof -
  have draw: "add_noise_draw (r\<lparr>store := AList.update t p (store r)\<rparr>) t
      = add_noise_draw (r\<lparr>store := AList.update t q (store r)\<rparr>) t"
    by (simp add: add_noise_draw_def Let_def cong: if_cong)
  have st: "(r\<lparr>store := AList.update t x (store r)\<rparr>)
        \<lparr>noise_generator := g,
         store := AList.update t u (store (r\<lparr>store := AList.update t x (store r)\<rparr>))\<rparr>
      = r\<lparr>noise_generator := g, store := AList.update t u (store r)\<rparr>" for x g u
    by simp
  show ?thesis
    unfolding add_noise_def draw st ..
qed

text \<open>
  C3, as the code has it. No add method that inserts into the store dictionary looks at
  the time key or at the entry stored there. In every store state, for every time \<open>t\<close>
  and every release method, the result of \<open>add_noise_custom\<close>, success or error, is the
  same whether or not an entry was stored at \<open>t\<close> before the call, and the result of
  \<open>add_noise\<close> is the same whatever entry was stored at \<open>t\<close>: the entry is overwritten by
  the new unit partial sum. The same holds for \<open>add\<close> of the base class and of the once,
  every and tree stores. The base-class \<open>add\<close> always succeeds and maps the key \<open>t\<close> to
  the new unit partial sum; under the once method \<open>add_noise_custom\<close> always succeeds,
  replacing the entry at the start time and removing the key \<open>t\<close> at any other time; the
  two-level \<open>add\<close>, which keeps no dictionary of times, always succeeds.
\<close>

theorem add_makes_no_time_check:
  fixes s :: "'n NoisePartialSumStore_base"
    and e :: "'m::comm_monoid_add NoisePartialSumStore_base"
    and r :: "'m NoisePartialSumStore"
    and tl :: "'m TwoLevelPartialSumStore"
  shows "(\<exists>s'. base_add s t nz = Inr s'
            \<and> map_of (store s') = (map_of (store s))(t \<mapsto> mk_psum t 1 nz))
    \<and> add_noise_custom (r\<lparr>release_method := ''once''\<rparr>) N t
        = Inr (r\<lparr>release_method := ''once'',
                 store := (if t = START_TIME r then AList.update t (mk_psum t 1 N) (store r)
                           else AList.delete t (store r))\<rparr>)
    \<and> add_noise_custom (r\<lparr>store := AList.update t p (store r)\<rparr>) N t = add_noise_custom r N t
    \<and> add_noise (r\<lparr>store := AList.update t p (store r)\<rparr>) t
        = add_noise (r\<lparr>store := AList.update t q (store r)\<rparr>) t
    \<and> base_add (s\<lparr>store := AList.update t p' (store s)\<rparr>) t nz
        = base_add s t nz
    \<and> OncePartialSumStore_add (s\<lparr>store := AList.update t p' (store s)\<rparr>) t nz
        = OncePartialSumStore_add s t nz
    \<and> EveryPartialSumStore_add (e\<lparr>store := AList.update t p (store e)\<rparr>) t N
        = EveryPartialSumStore_add e t N
    \<and> TreePartialSumStore_add (s\<lparr>store := AList.update t p' (store s)\<rparr>) t nz
        = TreePartialSumStore_add s t nz
    \<and> (\<exists>tl'. TwoLevelPartialSumStore_add tl t N = Inr tl')"
proof -
  have a: "\<exists>s'. base_add s t nz = Inr s'
            \<and> map_of (store s') = (map_of (store s))(t \<mapsto> mk_psum t 1 nz)"
    by (simp add: base_add_def base_consolidate_def update_conv')
  have b: "add_noise_custom (r\<lparr>release_method := ''once''\<rparr>) N t
        = Inr (r\<lparr>release_method := ''once'',
                 store := (if t = START_TIME r then AList.update t (mk_psum t 1 N) (store r)
                           else AList.delete t (store r))\<rparr>)"
    by (simp add: add_noise_custom_def consolidate_store_def consolidate_for_once_def
        dict_del_def dict_in_def update_conv' delete_update_same)
  have c: "add_noise_custom (r\<lparr>store := AList.update t p (store r)\<rparr>) N t = add_noise_custom r N t"
    by (simp add: add_noise_custom_def)
  have d: "add_noise (r\<lparr>store := AList.update t p (store r)\<rparr>) t
        = add_noise (r\<lparr>store := AList.update t q (store r)\<rparr>) t"
    by (rule add_noise_ignores_entry_at_time)
  have e1: "base_add (s\<lparr>store := AList.update t p' (store s)\<rparr>) t nz = base_add s t nz"
    by (simp add: base_add_def)
  have e2: "OncePartialSumStore_add (s\<lparr>store := AList.update t p' (store s)\<rparr>) t nz
        = OncePartialSumStore_add s t nz"
    by (simp add: OncePartialSumStore_add_def)
  have e3: "EveryPartialSumStore_add (e\<lparr>store := AList.update t p (store e)\<rparr>) t N
        = EveryPartialSumStore_add e t N"
    by (simp add: EveryPartialSumStore_add_def)
  have e4: "TreePartialSumStore_add (s\<lparr>store := AList.update t p' (store s)\<rparr>) t nz
        = TreePartialSumStore_add s t nz"
    by (simp add: TreePartialSumStore_add_def)
  have f: "\<exists>tl'. TwoLevelPartialSumStore_add tl t N = Inr tl'"
    by (simp add: TwoLevelPartialSumStore_add_def TwoLevelPartialSumStore_consolidate_def
        Let_def laplacian_def sample_def split: option.splits)
  from a b c d e1 e2 e3 e4 f show ?thesis by (intro conjI)
qed

text \<open>
  The claim C3 as worded fails: an add at a key already present, or at a time below an
  earlier one, returns normally, and the entry that was at the key is replaced.
\<close>

theorem add_overwrites_existing_key:
  "base_add \<lparr>noise_generator = const_generator 0, store = [(1, mk_psum 1 1 5)], START = 1\<rparr> 1 (7::int)
     = Inr \<lparr>noise_generator = const_generator 0, store = [(1, mk_psum 1 1 7)], START = 1\<rparr>
   \<and> base_add \<lparr>noise_generator = const_generator 0, store = [(2, mk_psum 2 1 5)], START = 1\<rparr> 1 (7::int)
     = Inr \<lparr>noise_generator = const_generator 0, store = [(2, mk_psum 2 1 5), (1, mk_psum 1 1 7)], START = 1\<rparr>
   \<and> add_noise \<lparr>noise_generator = const_generator (5::int), store = [(1, mk_psum 1 1 5)],
                 release_method = ''once'', is_theta_level = False, START_TIME = 1\<rparr> 1
     = Inr \<lparr>noise_generator = const_generator 5, store = [(1, mk_psum 1 1 0)],
                 release_method = ''once'', is_theta_level = False, START_TIME = 1\<rparr>"
  by (simp add: base_add_def base_consolidate_def add_noise_def add_noise_draw_def zeros_def
      consolidate_store_def consolidate_for_once_def)

section \<open>The every method\<close>

text \<open>
  What the two implementations compute in a run of adds at the times 1, 2, \<dots>: the
  first one keeps the size equal to the time and adds every draw to the entry at the
  start time, the first draw twice; the second one sums the passed noises, each once,
  into an entry of size 1.
\<close>

lemma mk_psum_sel [simp]:
  "start (mk_psum a b c) = a" "psize (mk_psum a b c) = b" "noise (mk_psum a b c) = c"
  by (simp_all add: mk_psum_def)

lemma every_add_noise_first:
  fixes s :: "'n::comm_monoid_add NoisePartialSumStore"
  assumes "release_method s = ''every''" and "START_TIME s = 1" and "store s = []"
  shows "add_noise s 1 =
    Inr (s\<lparr>noise_generator := (noise_generator s)\<lparr>rng := Suc (rng (noise_generator s))\<rparr>,
           store := [(1, mk_psum 1 1
              (let x = sampler (noise_generator s) (rng (noise_generator s))
                         (Laplacian (eps (noise_generator s)) None)
               in x + x))]\<rparr>)"
  using assms
  by (simp add: add_noise_def add_noise_draw_def consolidate_store_def
      consolidate_for_every_def laplacian_def sample_def Let_def dict_get_def mk_psum_def)

lemma every_add_noise_later:
  fixes s :: "'n::comm_monoid_add NoisePartialSumStore"
  assumes "release_method s = ''every''" and "START_TIME s = 1" and "store s = [(1, p)]"
    and "t \<noteq> 1"
  shows "add_noise s t =
    Inr (s\<lparr>noise_generator := (noise_generator s)\<lparr>rng := Suc (rng (noise_generator s))\<rparr>,
           store := [(1, mk_psum 1 t
              (noise p + sampler (noise_generator s) (rng (noise_generator s))
                         (Laplacian (eps (noise_generator s)) None)))]\<rparr>)"
  using assms
  by (simp add: add_noise_def add_noise_draw_def consolidate_store_def
      consolidate_for_every_def laplacian_def sample_def Let_def dict_get_def dict_del_def
      dict_in_def mk_psum_def)

lemma every_add_noise_run:
  fixes s :: "'n::comm_monoid_add NoisePartialSumStore"
  assumes "release_method s = ''every''" and "START_TIME s = 1" and "store s = []"
  shows "\<exists>s'. add_noise_run s (Suc n) = Inr s'
    \<and> store s' = [(1, mk_psum 1 (int (Suc n))
              (sampler (noise_generator s) (rng (noise_generator s))
                   (Laplacian (eps (noise_generator s)) None)
               + sum_list (map (\<lambda>k. sampler (noise_generator s) (rng (noise_generator s) + k)
                   (Laplacian (eps (noise_generator s)) None)) [0..<Suc n])))]
    \<and> noise_generator s' = (noise_generator s)\<lparr>rng := rng (noise_generator s) + Suc n\<rparr>
    \<and> release_method s' = ''every'' \<and> START_TIME s' = 1"
proof (induction n)
  case 0
  show ?case using every_add_noise_first [OF assms] assms by (simp add: Let_def)
next
  case (Suc n)
  then obtain s' where run: "add_noise_run s (Suc n) = Inr s'"
    and st: "store s' = [(1, mk_psum 1 (int (Suc n))
              (sampler (noise_generator s) (rng (noise_generator s))
                   (Laplacian (eps (noise_generator s)) None)
               + sum_list (map (\<lambda>k. sampler (noise_generator s) (rng (noise_generator s) + k)
                   (Laplacian (eps (noise_generator s)) None)) [0..<Suc n])))]"
    and gen: "noise_generator s' = (noise_generator s)\<lparr>rng := rng (noise_generator s) + Suc n\<rparr>"
    and rest: "release_method s' = ''every''" "START_TIME s' = 1"
    by blast
  have ne: "int (Suc (Suc n)) \<noteq> 1" by simp
  have step: "add_noise_run s (Suc (Suc n)) = add_noise s' (int (Suc (Suc n)))"
    using run by (simp del: of_nat_Suc)
  show ?case
    unfolding step every_add_noise_later [OF rest st ne]
    by (simp add: gen rest add.assoc del: of_nat_Suc)
qed

lemma every_add_first:
  fixes g :: "'n::comm_monoid_add noise_generator"
  shows "EveryPartialSumStore_add (init_base g) 1 nz
    = Inr ((init_base g)\<lparr>store := [(1, mk_psum 1 1 nz)]\<rparr>)"
  by (simp add: EveryPartialSumStore_add_def EveryPartialSumStore_consolidate_def init_base_def
      dict_values_def mk_psum_def)

lemma every_add_later:
  fixes s :: "'n::comm_monoid_add NoisePartialSumStore_base"
  assumes "START s = 1" and "store s = [(1, p)]" and "t \<noteq> 1"
  shows "EveryPartialSumStore_add s t nz = Inr (s\<lparr>store := [(1, mk_psum 1 1 (noise p + nz))]\<rparr>)"
  using assms
  by (simp add: EveryPartialSumStore_add_def EveryPartialSumStore_consolidate_def
      dict_values_def mk_psum_def)

lemma every_run_adds:
  fixes g :: "'n::comm_monoid_add noise_generator"
  shows "\<exists>b. run_adds EveryPartialSumStore_add xs (init_base g) (Suc n) = Inr b
    \<and> store b = [(1, mk_psum 1 1 (sum_list (map xs [1..<Suc (Suc n)])))] \<and> START b = 1"
proof (induction n)
  case 0
  have "run_adds EveryPartialSumStore_add xs (init_base g) (Suc 0)
      = Inr ((init_base g)\<lparr>store := [(1, mk_psum 1 1 (xs 1))]\<rparr>)"
    by (simp add: every_add_first)
  then show ?case by (simp add: init_base_def)
next
  case (Suc n)
  then obtain b where run: "run_adds EveryPartialSumStore_add xs (init_base g) (Suc n) = Inr b"
    and st: "store b = [(1, mk_psum 1 1 (sum_list (map xs [1..<Suc (Suc n)])))]"
    and start: "START b = 1"
    by blast
  have ne: "int (Suc (Suc n)) \<noteq> 1" by simp
  have more: "sum_list (map xs [1..<Suc (Suc (Suc n))])
      = sum_list (map xs [1..<Suc (Suc n)]) + xs (Suc (Suc n))"
    by (simp add: add.assoc)
  have step: "run_adds EveryPartialSumStore_add xs (init_base g) (Suc (Suc n))
      = EveryPartialSumStore_add b (int (Suc (Suc n))) (xs (Suc (Suc n)))"
    using run by (simp del: of_nat_Suc)
  show ?case
    unfolding step every_add_later [OF start st ne] more
    by (simp add: start)
qed

text \<open>
  C4 at two small runs. With every draw equal to 1, one \<open>add_noise\<close> under the every
  method leaves the noise 2 at the start time, the first draw counted twice; two adds
  of \<open>EveryPartialSumStore\<close> leave the sum 2 of the two noises in an entry of size 1.
\<close>

theorem every_adds_diverge:
  "(case add_noise_run \<lparr>noise_generator = const_generator (1::int), store = [],
                 release_method = ''every'', is_theta_level = False, START_TIME = 1\<rparr> 1 of
      Inl err \<Rightarrow> None | Inr s \<Rightarrow> Some (store s))
     = Some [(1, \<lparr>start = 1, psize = 1, noise = 2\<rparr>)]
   \<and> (case run_adds EveryPartialSumStore_add (\<lambda>k. 1::int) (init_base (const_generator 1)) 2 of
      Inl err \<Rightarrow> None | Inr s \<Rightarrow> Some (store s))
     = Some [(1, \<lparr>start = 1, psize = 1, noise = 2\<rparr>)]"
  by (simp add: eval_nat_numeral add_noise_def add_noise_draw_def const_generator_def
      consolidate_store_def consolidate_for_every_def laplacian_def sample_def mk_psum_def
      dict_get_def init_base_def EveryPartialSumStore_add_def EveryPartialSumStore_consolidate_def
      dict_values_def zeros_def)

section \<open>The once method\<close>

lemma once_add_noise_later:
  fixes s :: "'n::comm_monoid_add NoisePartialSumStore"
  assumes "release_method s = ''once''" and "START_TIME s = 1" and "store s = [(1, p)]"
    and "t \<noteq> 1"
  shows "add_noise s t = Inr s"
  using assms
  by (simp add: add_noise_def add_noise_draw_def zeros_def consolidate_store_def
      consolidate_for_once_def dict_del_def dict_in_def)

lemma once_add_noise_first:
  fixes s :: "'n::comm_monoid_add NoisePartialSumStore"
  assumes "release_method s = ''once''" and "START_TIME s = 1" and "store s = []"
    and "T (noise_generator s) \<noteq> 0"
  shows "add_noise s 1 =
    Inr (s\<lparr>noise_generator := (noise_generator s)\<lparr>rng := Suc (rng (noise_generator s))\<rparr>,
           store := [(1, mk_psum 1 1
              (sampler (noise_generator s) (rng (noise_generator s))
                 (Laplacian (eps (noise_generator s) / real_of_int (T (noise_generator s))) None)))]\<rparr>)"
  using assms
  by (simp add: add_noise_def add_noise_draw_def zeros_def consolidate_store_def
      consolidate_for_once_def py_truediv_def laplacian_def sample_def Let_def)

lemma once_add_noise_run:
  fixes s :: "'n::comm_monoid_add NoisePartialSumStore"
  assumes "release_method s = ''once''" and "START_TIME s = 1" and "store s = []"
    and "T (noise_generator s) \<noteq> 0"
  shows "add_noise_run s (Suc n) =
    Inr (s\<lparr>noise_generator := (noise_generator s)\<lparr>rng := Suc (rng (noise_generator s))\<rparr>,
           store := [(1, mk_psum 1 1
              (sampler (noise_generator s) (rng (noise_generator s))
                 (Laplacian (eps (noise_generator s) / real_of_int (T (noise_generator s))) None)))]\<rparr>)"
proof (induction n)
  case 0
  show ?case using once_add_noise_first [OF assms] by simp
next
  case (Suc n)
  have "int (Suc (Suc n)) \<noteq> 1" by simp
  with Suc assms(1,2) show ?case
    by (simp add: once_add_noise_later del: of_nat_Suc)
qed

lemma once_add_first:
  "OncePartialSumStore_add (init_base g) 1 nz = Inr ((init_base g)\<lparr>store := [(1, mk_psum 1 1 nz)]\<rparr>)"
  by (simp add: OncePartialSumStore_add_def OncePartialSumStore_consolidate_def init_base_def)

lemma once_add_later:
  assumes "START s = 1" and "store s = [(1, p)]" and "t \<noteq> 1"
  shows "OncePartialSumStore_add s t nz = Inr s"
  using assms
  by (simp add: OncePartialSumStore_add_def OncePartialSumStore_consolidate_def)

lemma once_run_adds:
  "run_adds OncePartialSumStore_add xs (init_base g) (Suc n)
     = Inr ((init_base g)\<lparr>store := [(1, mk_psum 1 1 (xs 1))]\<rparr>)"
proof (induction n)
  case 0
  show ?case by (simp add: once_add_first)
next
  case (Suc n)
  have "int (Suc (Suc n)) \<noteq> 1" by simp
  with Suc show ?case
    by (simp add: once_add_later init_base_def del: of_nat_Suc)
qed

text \<open>
  C5. Once method, \<open>n \<ge> 1\<close> adds at the times 1 to \<open>n\<close>. In the first implementation
  (horizon \<open>T\<close> not zero, so that \<open>eps / T\<close> is defined) the store holds exactly one
  entry, at the start time 1, whose noise is the draw of the first add at scale
  \<open>eps / T\<close>, and \<open>release_noise\<close> returns it. In \<open>OncePartialSumStore\<close> the store
  holds exactly one entry, at the start time 1, whose noise is the noise \<open>xs 1\<close> passed
  to the first add, and \<open>release\<close> returns it. The result does not depend on \<open>n\<close>.
\<close>

theorem once_keeps_first_noise:
  fixes g :: "'n::comm_monoid_add noise_generator"
  assumes "1 \<le> n" and "T g \<noteq> 0" and "init_store g ''once'' theta = Inr s0"
  shows "(\<exists>s. add_noise_run s0 n = Inr s
            \<and> store s = [(1, mk_psum 1 1
                  (sampler g (rng g) (Laplacian (eps g / real_of_int (T g)) None)))]
            \<and> START_TIME s = 1
            \<and> fst (release_noise s) = sampler g (rng g) (Laplacian (eps g / real_of_int (T g)) None))
    \<and> (\<exists>b. run_adds OncePartialSumStore_add xs (init_base g) n = Inr b
            \<and> store b = [(1, mk_psum 1 1 (xs 1))] \<and> START b = 1
            \<and> fst (base_release b) = xs 1)"
proof -
  obtain m where n: "n = Suc m" using assms(1) by (cases n) auto
  have s0: "release_method s0 = ''once''" "START_TIME s0 = 1" "store s0 = []"
    "noise_generator s0 = g"
    using assms(3) by (auto simp: init_store_def split: if_splits)
  have old: "\<exists>s. add_noise_run s0 n = Inr s
            \<and> store s = [(1, mk_psum 1 1
                  (sampler g (rng g) (Laplacian (eps g / real_of_int (T g)) None)))]
            \<and> START_TIME s = 1
            \<and> fst (release_noise s) = sampler g (rng g) (Laplacian (eps g / real_of_int (T g)) None)"
    unfolding n using once_add_noise_run [of s0 m] s0 assms(2)
    by (simp add: release_noise_def zeros_def dict_values_def mk_psum_def)
  have new: "\<exists>b. run_adds OncePartialSumStore_add xs (init_base g) n = Inr b
            \<and> store b = [(1, mk_psum 1 1 (xs 1))] \<and> START b = 1
            \<and> fst (base_release b) = xs 1"
    unfolding n once_run_adds
    by (simp add: base_release_def dict_values_def mk_psum_def init_base_def)
  from old new show ?thesis by (rule conjI)
qed

text \<open>
  The scenario of C5: the first draw is 5 and every later one 0; after ten adds both
  implementations release 5.
\<close>

theorem once_keeps_first_noise_witness:
  "(\<exists>s. add_noise_run
           \<lparr>noise_generator = \<lparr>eps = 1, delta = 0, T = 16, noise_type = ''laplacian'',
               sampler = (\<lambda>k r. if k = 0 then 5 else 0::int), rng = 0\<rparr>,
            store = [], release_method = ''once'', is_theta_level = False, START_TIME = 1\<rparr> 10 = Inr s
        \<and> fst (release_noise s) = 5)
   \<and> (\<exists>b. run_adds OncePartialSumStore_add (\<lambda>k. if k = 1 then 5 else 0::int)
            (init_base \<lparr>eps = 1, delta = 0, T = 16, noise_type = ''laplacian'',
               sampler = (\<lambda>k r. if k = 0 then 5 else 0::int), rng = 0\<rparr>) 10 = Inr b
        \<and> fst (base_release b) = 5)"
  using once_keeps_first_noise [of 10
      "\<lparr>eps = 1, delta = 0, T = 16, noise_type = ''laplacian'',
        sampler = (\<lambda>k r. if k = 0 then 5 else 0::int), rng = 0\<rparr>" False
      "\<lparr>noise_generator = \<lparr>eps = 1, delta = 0, T = 16, noise_type = ''laplacian'',
               sampler = (\<lambda>k r. if k = 0 then 5 else 0::int), rng = 0\<rparr>,
            store = [], release_method = ''once'', is_theta_level = False, START_TIME = 1\<rparr>"
      "\<lambda>k. if k = 1 then 5 else 0::int"]
  by (simp add: init_store_def) blast

section \<open>The two-level store\<close>

lemma two_level_add_step:
  fixes s :: "'n::comm_monoid_add TwoLevelPartialSumStore"
  shows "\<exists>s'. TwoLevelPartialSumStore_add s t nz = Inr s'
     \<and> (case single_level_store s' of None \<Rightarrow> True | Some sl \<Rightarrow> psize sl < block_size s')
     \<and> store s' = store s \<and> block_size s' = block_size s \<and> new_psum s' = None"
  by (simp add: TwoLevelPartialSumStore_add_def TwoLevelPartialSumStore_consolidate_def
      Let_def mk_psum_def laplacian_def sample_def split: option.splits)

lemma two_level_add_fires:
  fixes s :: "'n::comm_monoid_add TwoLevelPartialSumStore"
  assumes "block_size s \<le> single_count s"
  shows "\<exists>s'. TwoLevelPartialSumStore_add s t nz = Inr s'
     \<and> store s' = store s \<and> block_size s' = block_size s \<and> START s' = START s
     \<and> single_level_store s' = None
     \<and> map_option psize (block_level_store s')
          = Some (case block_level_store s of None \<Rightarrow> single_count s
                  | Some bl \<Rightarrow> psize bl + single_count s)
     \<and> rng (noise_generator s') = Suc (rng (noise_generator s))"
  using assms
  by (simp add: TwoLevelPartialSumStore_add_def TwoLevelPartialSumStore_consolidate_def
      single_count_def Let_def mk_psum_def laplacian_def sample_def split: option.splits)

lemma two_level_add_accumulates:
  fixes s :: "'n::comm_monoid_add TwoLevelPartialSumStore"
  assumes "single_count s < block_size s"
  shows "\<exists>s'. TwoLevelPartialSumStore_add s t nz = Inr s'
     \<and> store s' = store s \<and> block_size s' = block_size s \<and> START s' = START s
     \<and> map_option psize (single_level_store s') = Some (single_count s)
     \<and> block_level_store s' = block_level_store s
     \<and> noise_generator s' = noise_generator s"
  using assms
  by (simp add: TwoLevelPartialSumStore_add_def TwoLevelPartialSumStore_consolidate_def
      single_count_def Let_def mk_psum_def split: option.splits)

lemma two_level_run:
  fixes g :: "'n::comm_monoid_add noise_generator"
  assumes "1 \<le> bs"
  shows "\<exists>s. run_adds TwoLevelPartialSumStore_add xs (init_two_level g bs) n = Inr s
     \<and> store s = [] \<and> block_size s = bs \<and> START s = 1
     \<and> map_option psize (single_level_store s)
         = (if n mod nat bs = 0 then None else Some (int (n mod nat bs)))
     \<and> map_option psize (block_level_store s)
         = (if n < nat bs then None else Some (int (n div nat bs * nat bs)))
     \<and> rng (noise_generator s) = rng g + n div nat bs"
proof (induction n)
  case 0
  with assms show ?case by (simp add: init_two_level_def)
next
  case (Suc n)
  then obtain s where run: "run_adds TwoLevelPartialSumStore_add xs (init_two_level g bs) n = Inr s"
    and s: "store s = []" "block_size s = bs" "START s = 1"
    and single: "map_option psize (single_level_store s)
         = (if n mod nat bs = 0 then None else Some (int (n mod nat bs)))"
    and block: "map_option psize (block_level_store s)
         = (if n < nat bs then None else Some (int (n div nat bs * nat bs)))"
    and draws: "rng (noise_generator s) = rng g + n div nat bs"
    by blast
  define b where "b = nat bs"
  have b: "0 < b" "bs = int b" using assms by (simp_all add: b_def)
  have lt: "n mod b < b" using b by simp
  have cnt: "single_count s = int (Suc (n mod b))"
    using single unfolding b_def [symmetric]
    by (cases "single_level_store s") (auto simp: single_count_def split: if_splits)
  have step: "run_adds TwoLevelPartialSumStore_add xs (init_two_level g bs) (Suc n)
      = TwoLevelPartialSumStore_add s (int (Suc n)) (xs (Suc n))"
    using run by simp
  show ?case
  proof (cases "Suc (n mod b) = b")
    case True
    then have m: "Suc n mod b = 0" "Suc n div b = Suc (n div b)" "\<not> Suc n < b"
      using b by (auto simp: mod_Suc div_Suc)
    have n0: "n < b \<Longrightarrow> n div b = 0" by simp
    have "block_size s \<le> single_count s" using cnt True s(2) b(2) by simp
    from two_level_add_fires [OF this, of "int (Suc n)" "xs (Suc n)"]
    obtain s' where s': "TwoLevelPartialSumStore_add s (int (Suc n)) (xs (Suc n)) = Inr s'"
      "store s' = store s" "block_size s' = block_size s" "START s' = START s"
      "single_level_store s' = None"
      "map_option psize (block_level_store s')
          = Some (case block_level_store s of None \<Rightarrow> single_count s
                  | Some bl \<Rightarrow> psize bl + single_count s)"
      "rng (noise_generator s') = Suc (rng (noise_generator s))"
      by blast
    have "map_option psize (block_level_store s') = Some (int (Suc n div b * b))"
      using s'(6) block cnt True m n0 unfolding b_def [symmetric]
      by (cases "block_level_store s") (auto split: if_splits simp: algebra_simps)
    with s' s draws m show ?thesis
      unfolding step b_def [symmetric] by simp
  next
    case False
    then have m: "Suc n mod b = Suc (n mod b)" "Suc n div b = n div b"
      using b lt by (auto simp: mod_Suc div_Suc)
    have lt': "Suc n < b \<longleftrightarrow> n < b"
      using False b by (metis Suc_lessI Suc_lessD mod_less)
    have "single_count s < block_size s" using cnt False lt s(2) b(2) by simp
    from two_level_add_accumulates [OF this, of "int (Suc n)" "xs (Suc n)"]
    obtain s' where s': "TwoLevelPartialSumStore_add s (int (Suc n)) (xs (Suc n)) = Inr s'"
      "store s' = store s" "block_size s' = block_size s" "START s' = START s"
      "map_option psize (single_level_store s') = Some (single_count s)"
      "block_level_store s' = block_level_store s"
      "noise_generator s' = noise_generator s"
      by blast
    with s draws m lt' cnt block show ?thesis
      unfolding step b_def [symmetric] by simp
  qed
qed


text \<open>
  C10. Two-level store with block size \<open>bs \<ge> 1\<close>. After \<open>n\<close> adds from the initial
  object the single-level entry is empty or smaller than the block size; it is empty
  exactly when \<open>n\<close> is a multiple of the block size, the block level has drawn once per
  completed block, and the object holds at most two partial sums. From any object
  whatever, one add succeeds and leaves the single-level entry empty or smaller than
  the block size.
\<close>

theorem two_level_single_below_block_size:
  fixes g :: "'n::comm_monoid_add noise_generator" and s :: "'n TwoLevelPartialSumStore"
  assumes "1 \<le> bs"
  shows "(\<exists>s'. run_adds TwoLevelPartialSumStore_add xs (init_two_level g bs) n = Inr s'
      \<and> (case single_level_store s' of None \<Rightarrow> True | Some sl \<Rightarrow> psize sl < bs)
      \<and> (single_level_store s' = None) = (n mod nat bs = 0)
      \<and> rng (noise_generator s') = rng g + n div nat bs
      \<and> length (two_level_entries s') \<le> 2)
    \<and> (\<exists>s'. TwoLevelPartialSumStore_add s t nz = Inr s'
      \<and> (case single_level_store s' of None \<Rightarrow> True | Some sl \<Rightarrow> psize sl < block_size s')
      \<and> store s' = store s)"
proof -
  from two_level_run [OF assms, of xs g n]
  obtain s' where run: "run_adds TwoLevelPartialSumStore_add xs (init_two_level g bs) n = Inr s'"
    and st: "store s' = []"
    and single: "map_option psize (single_level_store s')
         = (if n mod nat bs = 0 then None else Some (int (n mod nat bs)))"
    and draws: "rng (noise_generator s') = rng g + n div nat bs"
    by blast
  have "n mod nat bs < nat bs" using assms by simp
  then have small: "int (n mod nat bs) < bs" by linarith
  have below: "(case single_level_store s' of None \<Rightarrow> True | Some sl \<Rightarrow> psize sl < bs)"
    using single small by (cases "single_level_store s'") (auto split: if_splits)
  have empty: "(single_level_store s' = None) = (n mod nat bs = 0)"
    using single by (cases "single_level_store s'") (auto split: if_splits)
  have two: "length (two_level_entries s') \<le> 2"
    by (simp add: two_level_entries_def st dict_values_def split: option.splits)
  have from_init: "\<exists>s'. run_adds TwoLevelPartialSumStore_add xs (init_two_level g bs) n = Inr s'
      \<and> (case single_level_store s' of None \<Rightarrow> True | Some sl \<Rightarrow> psize sl < bs)
      \<and> (single_level_store s' = None) = (n mod nat bs = 0)
      \<and> rng (noise_generator s') = rng g + n div nat bs
      \<and> length (two_level_entries s') \<le> 2"
    using run below empty draws two by (intro exI [of _ s'] conjI)
  from two_level_add_step [of s t nz]
  obtain s'' where "TwoLevelPartialSumStore_add s t nz = Inr s''"
    and "case single_level_store s'' of None \<Rightarrow> True | Some sl \<Rightarrow> psize sl < block_size s''"
    and "store s'' = store s"
    by blast
  then have one_step: "\<exists>s'. TwoLevelPartialSumStore_add s t nz = Inr s'
      \<and> (case single_level_store s' of None \<Rightarrow> True | Some sl \<Rightarrow> psize sl < block_size s')
      \<and> store s' = store s"
    by (intro exI [of _ s''] conjI)
  from from_init one_step show ?thesis by (rule conjI)
qed

theorem two_level_single_below_block_size_witness:
  "\<exists>s'. run_adds TwoLevelPartialSumStore_add (\<lambda>k. 1::int)
           (init_two_level (const_generator 1) 3) 7 = Inr s'
      \<and> (case single_level_store s' of None \<Rightarrow> True | Some sl \<Rightarrow> psize sl < 3)
      \<and> single_level_store s' \<noteq> None
      \<and> rng (noise_generator s') = 2
      \<and> length (two_level_entries s') \<le> 2"
proof -
  have bs: "(1::int) \<le> 3" by simp
  from two_level_single_below_block_size [OF bs, of "\<lambda>k. 1::int" "const_generator 1" 7
      "init_two_level (const_generator 1) 3" 1 1]
  have "\<exists>s'. run_adds TwoLevelPartialSumStore_add (\<lambda>k. 1::int)
           (init_two_level (const_generator 1) 3) 7 = Inr s'
      \<and> (case single_level_store s' of None \<Rightarrow> True | Some sl \<Rightarrow> psize sl < 3)
      \<and> (single_level_store s' = None) = (7 mod nat 3 = (0::nat))
      \<and> rng (noise_generator s') = rng (const_generator (1::int)) + 7 div nat 3
      \<and> length (two_level_entries s') \<le> 2"
    by (rule conjunct1)
  then obtain s' where run: "run_adds TwoLevelPartialSumStore_add (\<lambda>k. 1::int)
           (init_two_level (const_generator 1) 3) 7 = Inr s'"
    and below: "case single_level_store s' of None \<Rightarrow> True | Some sl \<Rightarrow> psize sl < 3"
    and empty: "(single_level_store s' = None) = (7 mod nat 3 = (0::nat))"
    and draws: "rng (noise_generator s') = rng (const_generator (1::int)) + 7 div nat 3"
    and two: "length (two_level_entries s') \<le> 2"
    by (elim exE conjE)
  from empty have "single_level_store s' \<noteq> None" by simp
  moreover from draws have "rng (noise_generator s') = 2"
    by (simp add: const_generator_def)
  ultimately show ?thesis
    using run below two by (intro exI [of _ s'] conjI)
qed

section \<open>The hybrid method at a power of two\<close>

lemma is_power_of_two_exp: "is_power_of_two (2 ^ k)"
proof -
  have "(2 ^ k AND (2 ^ k - 1)) = take_bit k (2 ^ k :: int)"
    by (simp add: take_bit_eq_mask mask_eq_exp_minus_1)
  also have "\<dots> = 0"
    by (simp add: take_bit_of_exp)
  finally have "(2 ^ k AND (2 ^ k - 1)) = (0::int)" .
  then show ?thesis by (simp add: is_power_of_two_def)
qed

lemma is_power_of_two_imp_exp:
  assumes "is_power_of_two v"
  shows "\<exists>k. v = 2 ^ k"
proof -
  from assms have pos: "0 < v" and zero: "(v AND (v - 1)) = 0"
    by (simp_all add: is_power_of_two_def)
  from pos zero show ?thesis
  proof (induction "nat v" arbitrary: v rule: less_induct)
    case less
    show ?case
    proof (cases "even v")
      case True
      define w where "w = v div 2"
      have v: "v = 2 * w" using True by (auto simp: w_def)
      have wpos: "0 < w" using less.prems(1) v by simp
      have "(v - 1) div 2 = w - 1" "odd (v - 1)" using v True by auto
      then have "(v AND (v - 1)) = 2 * (w AND (w - 1))"
        using True by (subst and_int.rec) (simp add: w_def)
      then have "(w AND (w - 1)) = 0" using less.prems(2) by simp
      moreover have "nat w < nat v" using wpos v by simp
      ultimately obtain k where "w = 2 ^ k" using less.hyps [of w] wpos by blast
      then have "v = 2 ^ Suc k" using v by simp
      then show ?thesis by blast
    next
      case False
      define w where "w = v div 2"
      have v: "v = 2 * w + 1" using False by (auto simp: w_def elim: oddE)
      have "(v - 1) div 2 = w" "even (v - 1)" using v False by auto
      then have "(v AND (v - 1)) = 2 * (w AND w)"
        using False by (subst and_int.rec) (simp add: w_def)
      then have "w = 0" using less.prems(2) by simp
      then have "v = 2 ^ 0" using v by simp
      then show ?thesis by blast
    qed
  qed
qed

lemma is_power_of_two_iff: "is_power_of_two v \<longleftrightarrow> (\<exists>k. v = 2 ^ k)"
  using is_power_of_two_imp_exp is_power_of_two_exp by blast

lemma hybrid_old_collapse:
  fixes s :: "'n::comm_monoid_add NoisePartialSumStore"
  assumes "release_method s = ''hybrid''" and "t = 2 ^ k" and "START_TIME s < t"
    and "map_of (store s) (START_TIME s) = Some p0"
  shows "add_noise s t =
    Inr (s\<lparr>noise_generator := (noise_generator s)\<lparr>rng := Suc (rng (noise_generator s))\<rparr>,
           store := [(START_TIME s, mk_psum (START_TIME s) t
              (noise p0 + sampler (noise_generator s) (rng (noise_generator s))
                 (Laplacian (eps (noise_generator s) / 2) None)))]\<rparr>)"
proof -
  have pow: "is_power_of_two t" using assms(2) is_power_of_two_exp by simp
  have ne: "START_TIME s \<noteq> t" using assms(3) by simp
  show ?thesis
    using assms(1,3,4) pow ne
    by (simp add: add_noise_def add_noise_draw_def consolidate_store_def Let_def
        laplacian_def sample_def dict_get_def update_conv' mk_psum_def)
qed

lemma hybrid_new_collapse:
  fixes s :: "'n::comm_monoid_add HybridPartialSumStore"
  assumes "t = 2 ^ k" and "START s < t" and "log_store s = Some ls"
  shows "HybridPartialSumStore_add s t nz =
    Inr (s\<lparr>log_store := Some (mk_psum (START s) t (noise ls + nz)),
           tree_store := [], new_noise := None\<rparr>)"
proof -
  have pow: "is_power_of_two t" using assms(1) is_power_of_two_exp by simp
  have ne: "t \<noteq> START s" using assms(2) by simp
  show ?thesis
    using assms(3) pow ne
    by (simp add: HybridPartialSumStore_add_def HybridPartialSumStore_consolidate_def
        Let_def mk_psum_def)
qed


text \<open>
  C7. Hybrid method, add at a time \<open>t = 2 ^ k\<close> above the start time, an entry being
  stored at the start time (the log-level entry). In the first implementation the store
  afterwards is the single entry at the start time with size \<open>t\<close>, whose noise is the
  noise of the old start entry plus the draw of this add, made at scale \<open>eps / 2\<close>.
  In \<open>HybridPartialSumStore\<close> the log-level entry becomes the entry at the start with
  size \<open>t\<close> and noise the old log-level noise plus the noise passed to the add, and the
  tree-level dictionary is emptied.
\<close>

theorem hybrid_power_of_two_collapses:
  fixes s :: "'n::comm_monoid_add NoisePartialSumStore"
    and h :: "'n HybridPartialSumStore"
  assumes "t = 2 ^ k"
    and "release_method s = ''hybrid''" and "START_TIME s < t"
    and "map_of (store s) (START_TIME s) = Some p0"
    and "START h < t" and "log_store h = Some ls"
  shows "add_noise s t =
      Inr (s\<lparr>noise_generator := (noise_generator s)\<lparr>rng := Suc (rng (noise_generator s))\<rparr>,
             store := [(START_TIME s, mk_psum (START_TIME s) t
                (noise p0 + sampler (noise_generator s) (rng (noise_generator s))
                   (Laplacian (eps (noise_generator s) / 2) None)))]\<rparr>)
    \<and> HybridPartialSumStore_add h t nz =
      Inr (h\<lparr>log_store := Some (mk_psum (START h) t (noise ls + nz)),
             tree_store := [], new_noise := None\<rparr>)"
  using hybrid_old_collapse [OF assms(2) assms(1) assms(3) assms(4)]
    hybrid_new_collapse [OF assms(1) assms(5) assms(6)]
  by (rule conjI)

theorem hybrid_power_of_two_collapses_witness:
  "add_noise \<lparr>noise_generator = const_generator (1::int),
              store = [(1, mk_psum 1 2 5), (3, mk_psum 3 1 7)],
              release_method = ''hybrid'', is_theta_level = False, START_TIME = 1\<rparr> 4
     = Inr \<lparr>noise_generator = (const_generator 1)\<lparr>rng := 1\<rparr>,
            store = [(1, mk_psum 1 4 6)],
            release_method = ''hybrid'', is_theta_level = False, START_TIME = 1\<rparr>
   \<and> HybridPartialSumStore_add
       \<lparr>noise_generator = const_generator (1::int), store = [], START = 1,
        tree_store = [(3, mk_psum 3 1 7)], log_store = Some (mk_psum 1 2 5), new_noise = None\<rparr> 4 1
     = Inr \<lparr>noise_generator = const_generator 1, store = [], START = 1,
            tree_store = [], log_store = Some (mk_psum 1 4 6), new_noise = None\<rparr>"
  using hybrid_power_of_two_collapses [of 4 2
      "\<lparr>noise_generator = const_generator (1::int),
              store = [(1, mk_psum 1 2 5), (3, mk_psum 3 1 7)],
              release_method = ''hybrid'', is_theta_level = False, START_TIME = 1\<rparr>"
      "mk_psum 1 2 5"
      "\<lparr>noise_generator = const_generator (1::int), store = [], START = 1,
        tree_store = [(3, mk_psum 3 1 7)], log_store = Some (mk_psum 1 2 5), new_noise = None\<rparr>"
      "mk_psum 1 2 5" 1]
  by (simp add: const_generator_def mk_psum_def)

section \<open>The sqrt method at a completed block\<close>

lemma del_keys_present:
  assumes "distinct ks" and "\<forall>k \<in> set ks. dict_in k d"
  shows "del_keys ks d = Inr (filter (\<lambda>(k, v). k \<notin> set ks) d)"
  using assms
proof (induction ks arbitrary: d)
  case Nil
  then show ?case by simp
next
  case (Cons k ks)
  have present: "dict_in k d" using Cons.prems(2) by simp
  have rest: "\<forall>k' \<in> set ks. dict_in k' (AList.delete k d)"
  proof
    fix k' assume k': "k' \<in> set ks"
    with Cons.prems(1) have "k' \<noteq> k" by auto
    moreover from k' Cons.prems(2) have "dict_in k' d" by simp
    ultimately show "dict_in k' (AList.delete k d)" by (simp add: dict_in_def)
  qed
  have "del_keys (k # ks) d = del_keys ks (AList.delete k d)"
    using present by (simp add: dict_del_def)
  also have "\<dots> = Inr (filter (\<lambda>(k', v). k' \<notin> set ks) (AList.delete k d))"
    using Cons.IH [OF _ rest] Cons.prems(1) by simp
  also have "filter (\<lambda>(k', v). k' \<notin> set ks) (AList.delete k d)
      = filter (\<lambda>(k', v). k' \<notin> set (k # ks)) d"
    by (induction d) (auto simp: AList.delete_eq)
  finally show ?case .
qed

lemma del_keys_missing:
  assumes "k \<in> set ks" and "\<not> dict_in k d"
  shows "del_keys ks d = Inl KeyError"
  using assms
proof (induction ks arbitrary: d)
  case Nil
  then show ?case by simp
next
  case (Cons a ks)
  show ?case
  proof (cases "dict_in a d")
    case False
    then show ?thesis by (simp add: dict_del_def)
  next
    case True
    with Cons.prems have "k \<noteq> a" by auto
    with Cons.prems have "k \<in> set ks" "\<not> dict_in k (AList.delete a d)"
      by (simp_all add: dict_in_def)
    from Cons.IH [OF this] True show ?thesis by (simp add: dict_del_def)
  qed
qed

lemma filter_update_removed:
  "t \<in> A \<Longrightarrow> filter (\<lambda>(k, v). k \<notin> A) (AList.update t u d) = filter (\<lambda>(k, v). k \<notin> A) d"
  by (induction d) auto

lemma map_of_filter_keys:
  "k \<notin> A \<Longrightarrow> map_of (filter (\<lambda>(k, v). k \<notin> A) d) k = map_of d k"
  by (induction d) auto

lemma sqrt_complete_block:
  fixes s :: "'n::comm_monoid_add NoisePartialSumStore"
  assumes sqrt_method: "release_method s = ''sqrt''"
    and horizon: "0 \<le> T (noise_generator s)"
    and bs: "b = int (sqrt_floor (nat (T (noise_generator s))))" "1 \<le> b"
    and block: "\<forall>k \<in> {t - b + 1 ..< t}. dict_in k (store s)"
    and first: "t - b + 1 = START_TIME s
        \<or> (START_TIME s \<notin> {t - b + 1 .. t} \<and> map_of (store s) (START_TIME s) = Some p0)"
  shows "add_noise s t =
    Inr (s\<lparr>noise_generator := (noise_generator s)\<lparr>rng := rng (noise_generator s) + 2\<rparr>,
           store := AList.update (START_TIME s)
             (let block_noise = sampler (noise_generator s) (Suc (rng (noise_generator s)))
                                  (Laplacian (2 * eps (noise_generator s)) None)
              in if t - b + 1 = START_TIME s
                 then mk_psum (START_TIME s) b block_noise
                 else mk_psum (START_TIME s) (psize p0 + b) (noise p0 + block_noise))
             (filter (\<lambda>(k, v). k \<notin> {t - b + 1 .. t}) (store s))\<rparr>)"
proof -
  define g where "g = noise_generator s"
  define x where "x = sampler g (rng g) (Laplacian (eps g) None)"
  define g1 where "g1 = g\<lparr>rng := Suc (rng g)\<rparr>"
  define d0 where "d0 = AList.update t (mk_psum t 1 x) (store s)"
  define s0 where "s0 = s\<lparr>noise_generator := g1, store := d0\<rparr>"
  define lo where "lo = t - b + 1"
  have lo_le: "lo \<le> t" using bs(2) by (simp add: lo_def)
  have add: "add_noise s t = consolidate_for_sqrt s0 t"
    using sqrt_method
    by (simp add: add_noise_def add_noise_draw_def Let_def laplacian_def sample_def
        consolidate_store_def s0_def d0_def g1_def x_def g_def)
  have sq: "int_np_sqrt (T (noise_generator s0)) = Inr b"
    using horizon bs(1) by (simp add: int_np_sqrt_def s0_def g1_def g_def)
  have t_in: "dict_in t d0" by (simp add: d0_def dict_in_def update_conv')
  have all_in: "\<forall>k \<in> set [lo..t]. dict_in k d0"
  proof
    fix k assume "k \<in> set [lo..t]"
    then have "k = t \<or> k \<in> {t - b + 1 ..< t}" by (auto simp: lo_def)
    then show "dict_in k d0"
      using t_in block by (auto simp: d0_def dict_in_def update_conv')
  qed
  have lo_in: "dict_in lo (store s0)"
    using all_in lo_le by (simp add: s0_def)
  have del: "del_keys [lo..t] (store s0) = Inr (filter (\<lambda>(k, v). k \<notin> {lo..t}) (store s))"
  proof -
    have "del_keys [lo..t] d0 = Inr (filter (\<lambda>(k, v). k \<notin> set [lo..t]) d0)"
      by (rule del_keys_present) (use all_in in simp_all)
    also have "filter (\<lambda>(k, v). k \<notin> set [lo..t]) d0 = filter (\<lambda>(k, v). k \<notin> set [lo..t]) (store s)"
      unfolding d0_def by (rule filter_update_removed) (use lo_le in simp)
    finally show ?thesis by (simp add: s0_def)
  qed
  show ?thesis
  proof (cases "lo = START_TIME s")
    case True
    then show ?thesis
      unfolding add
      using sq lo_in del
      by (simp add: consolidate_for_sqrt_def Let_def lo_def [symmetric] laplacian_def sample_def
          s0_def g1_def g_def)
  next
    case False
    with first have out: "START_TIME s \<notin> {lo..t}" and p0: "map_of (store s) (START_TIME s) = Some p0"
      by (simp_all add: lo_def)
    have "dict_get (filter (\<lambda>(k, v). k \<notin> {lo..t}) (store s)) (START_TIME s) = Inr p0"
      using map_of_filter_keys [OF out, of "store s"] p0 by (simp add: dict_get_def)
    with False show ?thesis
      unfolding add
      using sq lo_in del
      by (simp add: consolidate_for_sqrt_def Let_def lo_def [symmetric] laplacian_def sample_def
          s0_def g1_def g_def)
  qed
qed

lemma sqrt_incomplete_block:
  fixes s :: "'n::comm_monoid_add NoisePartialSumStore"
  assumes sqrt_method: "release_method s = ''sqrt''"
    and horizon: "0 \<le> T (noise_generator s)"
    and bs: "b = int (sqrt_floor (nat (T (noise_generator s))))"
    and absent: "\<not> dict_in (t - b + 1)
        (AList.update t (mk_psum t 1 (sampler (noise_generator s) (rng (noise_generator s))
           (Laplacian (eps (noise_generator s)) None))) (store s))"
  shows "add_noise s t =
    Inr (s\<lparr>noise_generator := (noise_generator s)\<lparr>rng := Suc (rng (noise_generator s))\<rparr>,
           store := AList.update t
             (mk_psum t 1 (sampler (noise_generator s) (rng (noise_generator s))
                (Laplacian (eps (noise_generator s)) None))) (store s)\<rparr>)"
  using sqrt_method horizon absent unfolding bs
  by (simp add: add_noise_def add_noise_draw_def Let_def laplacian_def sample_def
      consolidate_store_def consolidate_for_sqrt_def int_np_sqrt_def)

text \<open>
  C8, as the code has it. Sqrt method with block size \<open>b = \<lfloor>\<surd>T\<rfloor> \<ge> 1\<close>, add at time
  \<open>t\<close>, block start \<open>t - b + 1\<close>. When every key from the block start up to \<open>t - 1\<close>
  is stored (the key \<open>t\<close> is inserted by the add itself), and either the block start is
  the start time or the start time lies outside the block and holds an entry \<open>p0\<close>,
  the add succeeds with two draws, the unit noise at scale \<open>eps\<close> and the block noise at
  scale \<open>2 * eps\<close>; it removes every entry keyed in the block and leaves all others
  as they were, and it stores at the start time the block noise with size \<open>b\<close> when the
  block start is the start time, and otherwise \<open>p0\<close> with the block noise added and the
  size raised by \<open>b\<close>. When no entry is stored at the block start, the add only inserts
  the unit entry at \<open>t\<close> and leaves every other entry as it was.
\<close>

theorem sqrt_block_consolidates:
  fixes s :: "'n::comm_monoid_add NoisePartialSumStore"
  assumes "release_method s = ''sqrt''"
    and "0 \<le> T (noise_generator s)"
    and "b = int (sqrt_floor (nat (T (noise_generator s))))" and "1 \<le> b"
  shows "((\<forall>k \<in> {t - b + 1 ..< t}. dict_in k (store s))
        \<and> (t - b + 1 = START_TIME s
            \<or> (START_TIME s \<notin> {t - b + 1 .. t} \<and> map_of (store s) (START_TIME s) = Some p0))
      \<longrightarrow> add_noise s t =
        Inr (s\<lparr>noise_generator := (noise_generator s)\<lparr>rng := rng (noise_generator s) + 2\<rparr>,
               store := AList.update (START_TIME s)
                 (let block_noise = sampler (noise_generator s) (Suc (rng (noise_generator s)))
                                      (Laplacian (2 * eps (noise_generator s)) None)
                  in if t - b + 1 = START_TIME s
                     then mk_psum (START_TIME s) b block_noise
                     else mk_psum (START_TIME s) (psize p0 + b) (noise p0 + block_noise))
                 (filter (\<lambda>(k, v). k \<notin> {t - b + 1 .. t}) (store s))\<rparr>))
    \<and> (\<not> dict_in (t - b + 1)
          (AList.update t (mk_psum t 1 (sampler (noise_generator s) (rng (noise_generator s))
             (Laplacian (eps (noise_generator s)) None))) (store s))
      \<longrightarrow> add_noise s t =
        Inr (s\<lparr>noise_generator := (noise_generator s)\<lparr>rng := Suc (rng (noise_generator s))\<rparr>,
               store := AList.update t
                 (mk_psum t 1 (sampler (noise_generator s) (rng (noise_generator s))
                    (Laplacian (eps (noise_generator s)) None))) (store s)\<rparr>))"
proof (intro conjI impI)
  assume "(\<forall>k \<in> {t - b + 1 ..< t}. dict_in k (store s))
        \<and> (t - b + 1 = START_TIME s
            \<or> (START_TIME s \<notin> {t - b + 1 .. t} \<and> map_of (store s) (START_TIME s) = Some p0))"
  then have block: "\<forall>k \<in> {t - b + 1 ..< t}. dict_in k (store s)"
    and first: "t - b + 1 = START_TIME s
            \<or> (START_TIME s \<notin> {t - b + 1 .. t} \<and> map_of (store s) (START_TIME s) = Some p0)"
    by (rule conjunct1, rule conjunct2)
  from sqrt_complete_block [OF assms block first]
  show "add_noise s t =
        Inr (s\<lparr>noise_generator := (noise_generator s)\<lparr>rng := rng (noise_generator s) + 2\<rparr>,
               store := AList.update (START_TIME s)
                 (let block_noise = sampler (noise_generator s) (Suc (rng (noise_generator s)))
                                      (Laplacian (2 * eps (noise_generator s)) None)
                  in if t - b + 1 = START_TIME s
                     then mk_psum (START_TIME s) b block_noise
                     else mk_psum (START_TIME s) (psize p0 + b) (noise p0 + block_noise))
                 (filter (\<lambda>(k, v). k \<notin> {t - b + 1 .. t}) (store s))\<rparr>)" .
next
  assume "\<not> dict_in (t - b + 1)
          (AList.update t (mk_psum t 1 (sampler (noise_generator s) (rng (noise_generator s))
             (Laplacian (eps (noise_generator s)) None))) (store s))"
  from sqrt_incomplete_block [OF assms(1,2,3) this]
  show "add_noise s t =
        Inr (s\<lparr>noise_generator := (noise_generator s)\<lparr>rng := Suc (rng (noise_generator s))\<rparr>,
               store := AList.update t
                 (mk_psum t 1 (sampler (noise_generator s) (rng (noise_generator s))
                    (Laplacian (eps (noise_generator s)) None))) (store s)\<rparr>)" .
qed

theorem sqrt_block_consolidates_witness:
  "add_noise \<lparr>noise_generator = (const_generator (1::int))\<lparr>T := 4\<rparr>,
              store = [(1, mk_psum 1 2 5), (3, mk_psum 3 1 7)],
              release_method = ''sqrt'', is_theta_level = False, START_TIME = 1\<rparr> 4
     = Inr \<lparr>noise_generator = (const_generator 1)\<lparr>T := 4, rng := 2\<rparr>,
            store = [(1, mk_psum 1 4 6)],
            release_method = ''sqrt'', is_theta_level = False, START_TIME = 1\<rparr>
   \<and> add_noise \<lparr>noise_generator = (const_generator (1::int))\<lparr>T := 4\<rparr>,
              store = [(1, mk_psum 1 2 5)],
              release_method = ''sqrt'', is_theta_level = False, START_TIME = 1\<rparr> 3
     = Inr \<lparr>noise_generator = (const_generator 1)\<lparr>T := 4, rng := 1\<rparr>,
            store = [(1, mk_psum 1 2 5), (3, mk_psum 3 1 1)],
            release_method = ''sqrt'', is_theta_level = False, START_TIME = 1\<rparr>"
  using sqrt_block_consolidates [of
      "\<lparr>noise_generator = (const_generator (1::int))\<lparr>T := 4\<rparr>,
              store = [(1, mk_psum 1 2 5), (3, mk_psum 3 1 7)],
              release_method = ''sqrt'', is_theta_level = False, START_TIME = 1\<rparr>"
      2 4 "mk_psum 1 2 5"]
    sqrt_block_consolidates [of
      "\<lparr>noise_generator = (const_generator (1::int))\<lparr>T := 4\<rparr>,
              store = [(1, mk_psum 1 2 5)],
              release_method = ''sqrt'', is_theta_level = False, START_TIME = 1\<rparr>"
      2 3 "mk_psum 1 2 5"]
  by (simp add: const_generator_def mk_psum_def dict_in_def eval_nat_numeral)

text \<open>
  The claim C8 as worded fails where the block is not complete or no start entry
  exists. With \<open>T = 9\<close> (block size 3) and adds at the times 1, 2 and 4, the add at 4
  finds an entry at the block start 2 and raises \<open>KeyError\<close> at the missing key 3. With
  \<open>T = 4\<close> (block size 2) and the only entry at key 5, the add at 6 finds the block
  complete and raises \<open>KeyError\<close> for the absent start entry.
\<close>

theorem sqrt_incomplete_block_raises:
  "(case add_noise_run \<lparr>noise_generator = (const_generator (1::int))\<lparr>T := 9\<rparr>, store = [],
          release_method = ''sqrt'', is_theta_level = False, START_TIME = 1\<rparr> 2 of
      Inl err \<Rightarrow> None
    | Inr s \<Rightarrow> Some (map fst (store s), dict_in 2 (store s), add_noise s 4))
     = Some ([1, 2], True, Inl KeyError)
   \<and> add_noise \<lparr>noise_generator = (const_generator (1::int))\<lparr>T := 4\<rparr>,
                 store = [(5, mk_psum 5 1 1)],
                 release_method = ''sqrt'', is_theta_level = False, START_TIME = 1\<rparr> 6
     = Inl KeyError"
  by (simp add: eval_nat_numeral add_noise_def add_noise_draw_def const_generator_def
      consolidate_store_def consolidate_for_sqrt_def laplacian_def sample_def mk_psum_def
      dict_get_def dict_del_def dict_in_def int_np_sqrt_def zeros_def Let_def upto.simps)

section \<open>The tree method\<close>

declare consolidate_for_tree.simps [simp del]

lemma layout_size_simps [simp]:
  "layout_size [] = 0"
  "layout_size ((k, x) # kxs) = 2 ^ k + layout_size kxs"
  "layout_size (as @ bs) = layout_size as + layout_size bs"
  by (simp_all add: layout_size_def)

lemma layout_size_nonneg: "0 \<le> layout_size kxs"
  by (induction kxs) (auto simp: layout_size_def)

lemma tree_layout_append:
  "tree_layout st (as @ bs) = tree_layout st as @ tree_layout (st + layout_size as) bs"
  by (induction as arbitrary: st) (auto simp: algebra_simps)

lemma tree_layout_keys:
  "k \<in> fst ` set (tree_layout st kxs) \<Longrightarrow> st \<le> k \<and> k < st + layout_size kxs"
proof (induction kxs arbitrary: st)
  case Nil
  then show ?case by simp
next
  case (Cons a kxs)
  obtain j x where a: "a = (j, x)" by (cases a)
  have pos: "(0::int) < 2 ^ j" by simp
  from Cons.prems a consider "k = st" | "k \<in> fst ` set (tree_layout (st + 2 ^ j) kxs)"
    by auto
  then show ?case
  proof cases
    case 1
    with layout_size_nonneg [of kxs] a show ?thesis by (simp add: add_pos_nonneg)
  next
    case 2
    from Cons.IH [OF 2]
    have "st + 2 ^ j \<le> k" and "k < st + 2 ^ j + layout_size kxs" by simp_all
    with pos show ?thesis unfolding a layout_size_simps by linarith

  qed
qed

lemma update_absent: "k \<notin> fst ` set d \<Longrightarrow> AList.update k v d = d @ [(k, v)]"
  by (induction d) auto

lemma update_in_middle:
  "k \<notin> fst ` set P \<Longrightarrow> AList.update k v (P @ (k, w) # R) = P @ (k, v) # R"
  by (induction P) auto

lemma delete_last:
  "k \<notin> fst ` set P \<Longrightarrow> AList.delete k (P @ [(k, w)]) = P"
  by (induction P) auto

lemma map_of_absent: "k \<notin> fst ` set d \<Longrightarrow> map_of d k = None"
  by (simp add: map_of_eq_None_iff)

lemma map_of_append_absent: "k \<notin> fst ` set P \<Longrightarrow> map_of (P @ R) k = map_of R k"
  by (simp add: map_of_absent map_add_def)


lemma tree_layout_last:
  "tree_layout st (kxs @ [(j, x)])
     = tree_layout st kxs @ [(st + layout_size kxs, mk_psum (st + layout_size kxs) (2 ^ j) x)]"
  by (simp add: tree_layout_append)

lemma tree_layout_key_below:
  "st + layout_size kxs \<le> k \<Longrightarrow> k \<notin> fst ` set (tree_layout st kxs)"
  using tree_layout_keys [of k st kxs] by auto

lemma consolidate_for_tree_chain:
  fixes s :: "'n NoisePartialSumStore"
  assumes "store s = tree_layout st0 (kxs @ [(j, x)])"
    and "time = st0 + layout_size kxs"
    and "sorted_wrt (>) (map fst kxs)"
    and "\<forall>k \<in> set (map fst kxs). j \<le> k"
  shows "\<exists>s' kxs'. consolidate_for_tree s time = Inr s'
      \<and> store s' = tree_layout st0 kxs'
      \<and> sorted_wrt (>) (map fst kxs')
      \<and> layout_size kxs' = layout_size kxs + 2 ^ j
      \<and> release_method s' = release_method s \<and> START_TIME s' = START_TIME s"
  using assms
proof (induction kxs arbitrary: s time j x rule: rev_induct)
  case Nil
  have st: "store s = [(st0, mk_psum st0 (2 ^ j) x)]" and t: "time = st0"
    using Nil.prems by simp_all
  have "st0 - 2 ^ j \<noteq> st0" by simp
  then have "consolidate_for_tree s time = Inr s"
    unfolding t by (subst consolidate_for_tree.simps) (simp add: st mk_psum_def)
  moreover have "store s = tree_layout st0 [(j, x)]" using st by simp
  ultimately show ?case
    by (intro exI [of _ s] exI [of _ "[(j, x)]"]) simp
next
  case (snoc a kxs0)
  obtain k y where a: "a = (k, y)" by (cases a)
  define P where "P = tree_layout st0 kxs0"
  define prev where "prev = st0 + layout_size kxs0"
  have time: "time = prev + 2 ^ k"
    using snoc.prems(2) a by (simp add: prev_def)
  have store: "store s = P @ [(prev, mk_psum prev (2 ^ k) y), (time, mk_psum time (2 ^ j) x)]"
    using snoc.prems(1) a time
    by (simp add: tree_layout_append P_def prev_def algebra_simps)
  have prev_notin: "prev \<notin> fst ` set P"
    unfolding P_def prev_def by (rule tree_layout_key_below) simp
  have time_notin: "time \<notin> fst ` set P"
    unfolding P_def time prev_def by (rule tree_layout_key_below) simp
  have ne: "prev \<noteq> time" using time by simp
  have jk: "j \<le> k" using snoc.prems(4) a by simp
  have sorted0: "sorted_wrt (>) (map fst kxs0)" and above: "\<forall>k' \<in> set (map fst kxs0). k < k'"
    using snoc.prems(3) a by (auto simp: sorted_wrt_append)
  have look_time: "map_of (store s) time = Some (mk_psum time (2 ^ j) x)"
    unfolding store map_of_append_absent [OF time_notin] using ne by simp
  show ?case
  proof (cases "j = k")
    case True
    then have kj: "k = j" by simp
    have prev_eq: "time - 2 ^ j = prev" using time kj by simp
    have "map_of (store s) prev
        = map_of [(prev, mk_psum prev (2 ^ k) y), (time, mk_psum time (2 ^ j) x)] prev"
      unfolding store by (rule map_of_append_absent [OF prev_notin])
    then have look_prev: "map_of (store s) prev = Some (mk_psum prev (2 ^ j) y)"
      unfolding kj by simp
    define v where "v = sampler (noise_generator s) (rng (noise_generator s))
      (NoiseTree (eps (noise_generator s)) (delta (noise_generator s)) (T (noise_generator s)))"
    define g1 where "g1 = (noise_generator s)\<lparr>rng := Suc (rng (noise_generator s))\<rparr>"
    define s1 where "s1 = s\<lparr>noise_generator := g1,
      store := P @ [(prev, mk_psum prev (2 ^ j * 2) v)]\<rparr>"
    have upd: "AList.delete time (AList.update prev (mk_psum prev (2 ^ j * 2) v) (store s))
        = P @ [(prev, mk_psum prev (2 ^ j * 2) v)]"
    proof -
      have a1: "AList.update prev (mk_psum prev (2 ^ j * 2) v) (store s)
          = (P @ [(prev, mk_psum prev (2 ^ j * 2) v)]) @ [(time, mk_psum time (2 ^ j) x)]"
        using prev_notin by (simp add: store update_in_middle)
      have a2: "time \<notin> fst ` set (P @ [(prev, mk_psum prev (2 ^ j * 2) v)])"
        using time_notin ne by auto
      show ?thesis unfolding a1 by (rule delete_last [OF a2])
    qed
    have "consolidate_for_tree s time
        = consolidate_for_tree
            (s\<lparr>noise_generator := g1,
               store := AList.delete time
                 (AList.update prev (mk_psum prev (2 ^ j * 2) v) (store s))\<rparr>) prev"
      by (subst consolidate_for_tree.simps)
         (simp add: look_time look_prev prev_eq Let_def generate_noise_tree_def sample_def
            v_def g1_def)
    then have step: "consolidate_for_tree s time = consolidate_for_tree s1 prev"
      unfolding upd s1_def .
    have s1_store: "store s1 = tree_layout st0 (kxs0 @ [(Suc j, v)])"
      by (simp add: s1_def tree_layout_append P_def prev_def)
    have "\<forall>k' \<in> set (map fst kxs0). Suc j \<le> k'" using above kj by auto
    from snoc.IH [OF s1_store _ sorted0 this, of prev]
    obtain s' kxs' where r: "consolidate_for_tree s1 prev = Inr s'"
      "store s' = tree_layout st0 kxs'" "sorted_wrt (>) (map fst kxs')"
      "layout_size kxs' = layout_size kxs0 + 2 ^ Suc j"
      "release_method s' = release_method s1" "START_TIME s' = START_TIME s1"
      by (auto simp: prev_def)
    have "layout_size kxs' = layout_size (kxs0 @ [a]) + 2 ^ j"
      using r(4) a kj by simp
    with r step show ?thesis
      by (intro exI [of _ s'] exI [of _ kxs']) (simp add: s1_def)
  next
    case False
    with jk have lt: "j < k" by simp
    then have "(2::int) ^ j < 2 ^ k" by simp
    then have between: "prev < time - 2 ^ j" "time - 2 ^ j < time"
      using time by simp_all
    have "time - 2 ^ j \<notin> fst ` set P"
      unfolding P_def by (rule tree_layout_key_below) (use between in \<open>simp add: prev_def\<close>)
    then have "map_of (store s) (time - 2 ^ j)
        = map_of [(prev, mk_psum prev (2 ^ k) y), (time, mk_psum time (2 ^ j) x)] (time - 2 ^ j)"
      unfolding store by (rule map_of_append_absent)
    then have look_prev: "map_of (store s) (time - 2 ^ j) = None"
      using between by simp
    have res: "consolidate_for_tree s time = Inr s"
      by (subst consolidate_for_tree.simps) (simp add: look_time look_prev mk_psum_def)
    have sorted: "sorted_wrt (>) (map fst ((kxs0 @ [a]) @ [(j, x)]))"
      using snoc.prems(3,4) lt a by (auto simp: sorted_wrt_append)
    from res snoc.prems(1) sorted show ?thesis
      by (intro exI [of _ s] exI [of _ "(kxs0 @ [a]) @ [(j, x)]"]) (simp add: a)
  qed
qed


lemma bit_sum_of_powers:
  "distinct ks \<Longrightarrow> bit (sum_list (map (\<lambda>k. 2 ^ k) ks) :: int) j \<longleftrightarrow> j \<in> set ks"
proof (induction ks arbitrary: j)
  case Nil
  then show ?case by simp
next
  case (Cons k ks)
  then have IH: "\<And>i. bit (sum_list (map (\<lambda>k. 2 ^ k) ks) :: int) i \<longleftrightarrow> i \<in> set ks"
    and k: "k \<notin> set ks"
    by simp_all
  have "bit ((2 ^ k :: int) + sum_list (map (\<lambda>k. 2 ^ k) ks)) j
      \<longleftrightarrow> bit (2 ^ k :: int) j \<or> bit (sum_list (map (\<lambda>k. 2 ^ k) ks) :: int) j"
    by (rule bit_disjunctive_add_iff) (use IH k in \<open>auto simp: bit_exp_iff\<close>)
  then show ?case
    by (auto simp: IH bit_exp_iff)
qed

lemma sorted_wrt_greater_distinct: "sorted_wrt (>) (ks :: nat list) \<Longrightarrow> distinct ks"
  by (induction ks) auto

lemma tree_layout_sizes:
  "map psize (dict_values (tree_layout st kxs)) = map (\<lambda>k. 2 ^ k) (map fst kxs)"
  by (induction kxs arbitrary: st) (auto simp: dict_values_def)

lemma layout_sizes_binary:
  assumes "sorted_wrt (>) (map fst kxs)" and "layout_size kxs = int n"
  shows "mset (map psize (dict_values (tree_layout st kxs)))
    = image_mset (\<lambda>k. 2 ^ k) (mset_set {k. bit n k})"
proof -
  let ?ks = "map fst kxs"
  have d: "distinct ?ks" using assms(1) by (rule sorted_wrt_greater_distinct)
  have "layout_size kxs = sum_list (map (\<lambda>k. 2 ^ k) ?ks)"
    by (induction kxs) auto
  then have "sum_list (map (\<lambda>k. 2 ^ k) ?ks) = int n"
    using assms(2) by simp
  then have "\<And>j. bit (int n) j \<longleftrightarrow> j \<in> set ?ks"
    using bit_sum_of_powers [OF d] by simp
  then have "set ?ks = {k. bit n k}"
    by (auto simp: bit_of_nat_iff_bit)
  then have "mset ?ks = mset_set {k. bit n k}"
    using d by (metis mset_set_set)
  then have "image_mset (\<lambda>k. 2 ^ k) (mset ?ks) = image_mset (\<lambda>k. 2 ^ k) (mset_set {k. bit n k})"
    by simp
  then show ?thesis
    unfolding tree_layout_sizes mset_map .
qed

lemma tree_add_noise_step:
  fixes s :: "'n::comm_monoid_add NoisePartialSumStore"
  assumes "release_method s = ''tree''" and "store s = tree_layout 1 kxs"
    and "sorted_wrt (>) (map fst kxs)" and "time = 1 + layout_size kxs"
  shows "\<exists>s' kxs'. add_noise s time = Inr s' \<and> store s' = tree_layout 1 kxs'
    \<and> sorted_wrt (>) (map fst kxs') \<and> layout_size kxs' = layout_size kxs + 1
    \<and> release_method s' = ''tree''"
proof -
  define x where "x = sampler (noise_generator s) (rng (noise_generator s))
      (NoiseTree (eps (noise_generator s)) (delta (noise_generator s)) (T (noise_generator s)))"
  define s0 where "s0 = s\<lparr>noise_generator := (noise_generator s)\<lparr>rng := Suc (rng (noise_generator s))\<rparr>,
      store := AList.update time (mk_psum time 1 x) (store s)\<rparr>"
  have absent: "time \<notin> fst ` set (tree_layout 1 kxs)"
    by (rule tree_layout_key_below) (simp add: assms(4))
  have st0: "store s0 = tree_layout 1 (kxs @ [(0, x)])"
    using absent by (simp add: s0_def assms(2,4) update_absent tree_layout_append)
  have add: "add_noise s time = consolidate_for_tree s0 time"
    using assms(1)
    by (simp add: add_noise_def add_noise_draw_def Let_def generate_noise_tree_def sample_def
        consolidate_store_def s0_def x_def)
  from consolidate_for_tree_chain [OF st0 assms(4) assms(3)]
  obtain s' kxs' where "consolidate_for_tree s0 time = Inr s'"
    "store s' = tree_layout 1 kxs'" "sorted_wrt (>) (map fst kxs')"
    "layout_size kxs' = layout_size kxs + 2 ^ 0"
    "release_method s' = release_method s0"
    by auto
  with add assms(1) show ?thesis
    by (intro exI [of _ s'] exI [of _ kxs']) (simp add: s0_def)
qed

lemma tree_add_noise_run:
  fixes s0 :: "'n::comm_monoid_add NoisePartialSumStore"
  assumes "release_method s0 = ''tree''" and "store s0 = []"
  shows "\<exists>s kxs. add_noise_run s0 n = Inr s \<and> store s = tree_layout 1 kxs
    \<and> sorted_wrt (>) (map fst kxs) \<and> layout_size kxs = int n
    \<and> release_method s = ''tree''"
proof (induction n)
  case 0
  show ?case using assms by (intro exI [of _ s0] exI [of _ "[]"]) simp
next
  case (Suc n)
  then obtain s kxs where run: "add_noise_run s0 n = Inr s"
    and inv: "store s = tree_layout 1 kxs" "sorted_wrt (>) (map fst kxs)"
      "layout_size kxs = int n" "release_method s = ''tree''"
    by blast
  have t: "int (Suc n) = 1 + layout_size kxs" using inv(3) by simp
  from tree_add_noise_step [OF inv(4) inv(1) inv(2) t]
  obtain s' kxs' where "add_noise s (int (Suc n)) = Inr s'" "store s' = tree_layout 1 kxs'"
    "sorted_wrt (>) (map fst kxs')" "layout_size kxs' = layout_size kxs + 1"
    "release_method s' = ''tree''"
    by blast
  moreover from this(4) inv(3) have "layout_size kxs' = int (Suc n)" by simp
  ultimately show ?case
    using run by (intro exI [of _ s'] exI [of _ kxs']) (simp del: of_nat_Suc)
qed

lemma tree_helper_chain:
  fixes s :: "'n NoisePartialSumStore_base"
  assumes "store s = tree_layout st0 (kxs @ [(j, x)])"
    and "time = st0 + layout_size kxs"
    and "sorted_wrt (>) (map fst kxs)"
    and "\<forall>k \<in> set (map fst kxs). j \<le> k"
  shows "\<exists>s' kxs'. TreePartialSumStore_consolidate_helper s time = Inr s'
      \<and> store s' = tree_layout st0 kxs'
      \<and> sorted_wrt (>) (map fst kxs')
      \<and> layout_size kxs' = layout_size kxs + 2 ^ j
      \<and> START s' = START s"
  using assms
proof (induction kxs arbitrary: s time j x rule: rev_induct)
  case Nil
  have st: "store s = [(st0, mk_psum st0 (2 ^ j) x)]" and t: "time = st0"
    using Nil.prems by simp_all
  have "st0 - 2 ^ j \<noteq> st0" by simp
  then have "TreePartialSumStore_consolidate_helper s time = Inr s"
    unfolding t by (subst TreePartialSumStore_consolidate_helper.simps) (simp add: st mk_psum_def)
  moreover have "store s = tree_layout st0 [(j, x)]" using st by simp
  ultimately show ?case
    by (intro exI [of _ s] exI [of _ "[(j, x)]"]) simp
next
  case (snoc a kxs0)
  obtain k y where a: "a = (k, y)" by (cases a)
  define P where "P = tree_layout st0 kxs0"
  define prev where "prev = st0 + layout_size kxs0"
  have time: "time = prev + 2 ^ k"
    using snoc.prems(2) a by (simp add: prev_def)
  have store: "store s = P @ [(prev, mk_psum prev (2 ^ k) y), (time, mk_psum time (2 ^ j) x)]"
    using snoc.prems(1) a time
    by (simp add: tree_layout_append P_def prev_def algebra_simps)
  have prev_notin: "prev \<notin> fst ` set P"
    unfolding P_def prev_def by (rule tree_layout_key_below) simp
  have time_notin: "time \<notin> fst ` set P"
    unfolding P_def time prev_def by (rule tree_layout_key_below) simp
  have ne: "prev \<noteq> time" using time by simp
  have jk: "j \<le> k" using snoc.prems(4) a by simp
  have sorted0: "sorted_wrt (>) (map fst kxs0)" and above: "\<forall>k' \<in> set (map fst kxs0). k < k'"
    using snoc.prems(3) a by (auto simp: sorted_wrt_append)
  have look_time: "map_of (store s) time = Some (mk_psum time (2 ^ j) x)"
    unfolding store map_of_append_absent [OF time_notin] using ne by simp
  show ?case
  proof (cases "j = k")
    case True
    then have kj: "k = j" by simp
    have prev_eq: "time - 2 ^ j = prev" using time kj by simp
    have "map_of (store s) prev
        = map_of [(prev, mk_psum prev (2 ^ k) y), (time, mk_psum time (2 ^ j) x)] prev"
      unfolding store by (rule map_of_append_absent [OF prev_notin])
    then have look_prev: "map_of (store s) prev = Some (mk_psum prev (2 ^ j) y)"
      unfolding kj by simp
    define v where "v = sampler (noise_generator s) (rng (noise_generator s))
      (Laplacian (eps (noise_generator s) / log 2 (real_of_int (T (noise_generator s))))
         (Some (prev + 2 ^ j * 2 - 1)))"
    define g1 where "g1 = (noise_generator s)\<lparr>rng := Suc (rng (noise_generator s))\<rparr>"
    define s1 where "s1 = s\<lparr>noise_generator := g1,
      store := P @ [(prev, mk_psum prev (2 ^ j * 2) v)]\<rparr>"
    have upd: "AList.delete time (AList.update prev (mk_psum prev (2 ^ j * 2) v) (store s))
        = P @ [(prev, mk_psum prev (2 ^ j * 2) v)]"
    proof -
      have a1: "AList.update prev (mk_psum prev (2 ^ j * 2) v) (store s)
          = (P @ [(prev, mk_psum prev (2 ^ j * 2) v)]) @ [(time, mk_psum time (2 ^ j) x)]"
        using prev_notin by (simp add: store update_in_middle)
      have a2: "time \<notin> fst ` set (P @ [(prev, mk_psum prev (2 ^ j * 2) v)])"
        using time_notin ne by auto
      show ?thesis unfolding a1 by (rule delete_last [OF a2])
    qed
    have "TreePartialSumStore_consolidate_helper s time
        = TreePartialSumStore_consolidate_helper
            (s\<lparr>noise_generator := g1,
               store := AList.delete time
                 (AList.update prev (mk_psum prev (2 ^ j * 2) v) (store s))\<rparr>) prev"
      by (subst TreePartialSumStore_consolidate_helper.simps)
         (simp add: look_time look_prev prev_eq Let_def laplacian_def sample_def
            v_def g1_def)
    then have step: "TreePartialSumStore_consolidate_helper s time = TreePartialSumStore_consolidate_helper s1 prev"
      unfolding upd s1_def .
    have s1_store: "store s1 = tree_layout st0 (kxs0 @ [(Suc j, v)])"
      by (simp add: s1_def tree_layout_append P_def prev_def)
    have "\<forall>k' \<in> set (map fst kxs0). Suc j \<le> k'" using above kj by auto
    from snoc.IH [OF s1_store _ sorted0 this, of prev]
    obtain s' kxs' where r: "TreePartialSumStore_consolidate_helper s1 prev = Inr s'"
      "store s' = tree_layout st0 kxs'" "sorted_wrt (>) (map fst kxs')"
      "layout_size kxs' = layout_size kxs0 + 2 ^ Suc j"
      "START s' = START s1"
      by (auto simp: prev_def)
    have "layout_size kxs' = layout_size (kxs0 @ [a]) + 2 ^ j"
      using r(4) a kj by simp
    with r step show ?thesis
      by (intro exI [of _ s'] exI [of _ kxs']) (simp add: s1_def)
  next
    case False
    with jk have lt: "j < k" by simp
    then have "(2::int) ^ j < 2 ^ k" by simp
    then have between: "prev < time - 2 ^ j" "time - 2 ^ j < time"
      using time by simp_all
    have "time - 2 ^ j \<notin> fst ` set P"
      unfolding P_def by (rule tree_layout_key_below) (use between in \<open>simp add: prev_def\<close>)
    then have "map_of (store s) (time - 2 ^ j)
        = map_of [(prev, mk_psum prev (2 ^ k) y), (time, mk_psum time (2 ^ j) x)] (time - 2 ^ j)"
      unfolding store by (rule map_of_append_absent)
    then have look_prev: "map_of (store s) (time - 2 ^ j) = None"
      using between by simp
    have res: "TreePartialSumStore_consolidate_helper s time = Inr s"
      by (subst TreePartialSumStore_consolidate_helper.simps) (simp add: look_time look_prev mk_psum_def)
    have sorted: "sorted_wrt (>) (map fst ((kxs0 @ [a]) @ [(j, x)]))"
      using snoc.prems(3,4) lt a by (auto simp: sorted_wrt_append)
    from res snoc.prems(1) sorted show ?thesis
      by (intro exI [of _ s] exI [of _ "(kxs0 @ [a]) @ [(j, x)]"]) (simp add: a)
  qed
qed



lemma py_max_last:
  assumes "\<forall>k \<in> set xs. k \<le> t"
  shows "py_max (xs @ [t]) = Inr t"
proof (cases xs)
  case Nil
  then show ?thesis by (simp add: py_max_def)
next
  case (Cons x ys)
  have "fold max (ys @ [t]) x = Max (set (x # ys @ [t]))"
    by (simp only: Max.set_eq_fold)
  also have "\<dots> = t"
    using assms Cons by (intro Max_eqI) auto
  finally show ?thesis using Cons by (simp add: py_max_def)
qed

lemma tree_layout_starts:
  "map start (dict_values (tree_layout st kxs)) = map fst (tree_layout st kxs)"
  by (induction st kxs rule: tree_layout.induct) (simp_all add: dict_values_def)

lemma tree_add_step:
  fixes s :: "'n NoisePartialSumStore_base"
  assumes "store s = tree_layout 1 kxs"
    and "sorted_wrt (>) (map fst kxs)" and "time = 1 + layout_size kxs"
  shows "\<exists>s' kxs'. TreePartialSumStore_add s time nz = Inr s' \<and> store s' = tree_layout 1 kxs'
    \<and> sorted_wrt (>) (map fst kxs') \<and> layout_size kxs' = layout_size kxs + 1"
proof -
  define s0 where "s0 = s\<lparr>store := AList.update time (mk_psum time 1 nz) (store s)\<rparr>"
  have absent: "time \<notin> fst ` set (tree_layout 1 kxs)"
    by (rule tree_layout_key_below) (simp add: assms(3))
  have st0: "store s0 = tree_layout 1 (kxs @ [(0, nz)])"
    using absent by (simp add: s0_def assms(1,3) update_absent tree_layout_append)
  have "\<forall>k \<in> set (map fst (tree_layout 1 kxs)). k \<le> time"
    using tree_layout_keys [of _ 1 kxs] assms(3) by fastforce
  then have "py_max (map fst (tree_layout 1 kxs) @ [time]) = Inr time"
    by (rule py_max_last)
  then have "py_max (map start (dict_values (store s0))) = Inr time"
    unfolding st0 tree_layout_starts by (simp add: tree_layout_append assms(3))
  then have add: "TreePartialSumStore_add s time nz = TreePartialSumStore_consolidate_helper s0 time"
    by (simp add: TreePartialSumStore_add_def TreePartialSumStore_consolidate_def s0_def)
  from tree_helper_chain [OF st0 assms(3) assms(2)]
  obtain s' kxs' where "TreePartialSumStore_consolidate_helper s0 time = Inr s'"
    "store s' = tree_layout 1 kxs'" "sorted_wrt (>) (map fst kxs')"
    "layout_size kxs' = layout_size kxs + 2 ^ 0"
    by auto
  with add show ?thesis
    by (intro exI [of _ s'] exI [of _ kxs']) simp
qed

lemma tree_run_adds:
  "\<exists>s kxs. run_adds TreePartialSumStore_add xs (init_base g) n = Inr s
    \<and> store s = tree_layout 1 kxs
    \<and> sorted_wrt (>) (map fst kxs) \<and> layout_size kxs = int n"
proof (induction n)
  case 0
  show ?case
    by (intro exI [of _ "init_base g"] exI [of _ "[]"]) (simp add: init_base_def)
next
  case (Suc n)
  then obtain s kxs where run: "run_adds TreePartialSumStore_add xs (init_base g) n = Inr s"
    and inv: "store s = tree_layout 1 kxs" "sorted_wrt (>) (map fst kxs)"
      "layout_size kxs = int n"
    by blast
  have t: "int (Suc n) = 1 + layout_size kxs" using inv(3) by simp
  from tree_add_step [OF inv(1) inv(2) t, of "xs (Suc n)"]
  obtain s' kxs' where "TreePartialSumStore_add s (int (Suc n)) (xs (Suc n)) = Inr s'"
    "store s' = tree_layout 1 kxs'"
    "sorted_wrt (>) (map fst kxs')" "layout_size kxs' = layout_size kxs + 1"
    by blast
  moreover from this(4) inv(3) have "layout_size kxs' = int (Suc n)" by simp
  ultimately show ?case
    using run by (intro exI [of _ s'] exI [of _ kxs']) (simp del: of_nat_Suc)
qed

text \<open>
  C2. Tree method, \<open>n\<close> adds at the times 1 to \<open>n\<close> on a new store: in both
  implementations the run succeeds and the multiset of the stored sizes is the set of
  the powers \<open>2 ^ k\<close> over the one-bits \<open>k\<close> of \<open>n\<close>, each once.
\<close>

theorem tree_sizes_are_binary_digits:
  fixes g :: "'n::comm_monoid_add noise_generator"
  assumes "init_store g ''tree'' theta = Inr s0"
  shows "(\<exists>s. add_noise_run s0 n = Inr s
            \<and> mset (map psize (dict_values (store s)))
                = image_mset (\<lambda>k. 2 ^ k) (mset_set {k. bit n k}))
    \<and> (\<exists>b. run_adds TreePartialSumStore_add xs (init_base g) n = Inr b
            \<and> mset (map psize (dict_values (store b)))
                = image_mset (\<lambda>k. 2 ^ k) (mset_set {k. bit n k}))"
proof -
  have s0: "release_method s0 = ''tree''" "store s0 = []"
    using assms by (auto simp: init_store_def split: if_splits)
  from tree_add_noise_run [OF s0, of n]
  obtain s kxs where "add_noise_run s0 n = Inr s" "store s = tree_layout 1 kxs"
    "sorted_wrt (>) (map fst kxs)" "layout_size kxs = int n"
    by blast
  then have old: "\<exists>s. add_noise_run s0 n = Inr s
            \<and> mset (map psize (dict_values (store s)))
                = image_mset (\<lambda>k. 2 ^ k) (mset_set {k. bit n k})"
    using layout_sizes_binary [of kxs n 1] by (intro exI [of _ s]) simp
  from tree_run_adds [of xs g n]
  obtain b kxs' where "run_adds TreePartialSumStore_add xs (init_base g) n = Inr b"
    "store b = tree_layout 1 kxs'"
    "sorted_wrt (>) (map fst kxs')" "layout_size kxs' = int n"
    by blast
  then have new: "\<exists>b. run_adds TreePartialSumStore_add xs (init_base g) n = Inr b
            \<and> mset (map psize (dict_values (store b)))
                = image_mset (\<lambda>k. 2 ^ k) (mset_set {k. bit n k})"
    using layout_sizes_binary [of kxs' n 1] by (intro exI [of _ b]) simp
  from old new show ?thesis by (rule conjI)
qed

theorem tree_sizes_are_binary_digits_witness:
  "(\<exists>s. add_noise_run \<lparr>noise_generator = const_generator (1::int), store = [],
             release_method = ''tree'', is_theta_level = False, START_TIME = 1\<rparr> 7 = Inr s
        \<and> mset (map psize (dict_values (store s)))
            = image_mset (\<lambda>k. 2 ^ k) (mset_set {k. bit (7::nat) k}))
   \<and> (\<exists>b. run_adds TreePartialSumStore_add (\<lambda>k. 1) (init_base (const_generator (1::int))) 7 = Inr b
        \<and> mset (map psize (dict_values (store b)))
            = image_mset (\<lambda>k. 2 ^ k) (mset_set {k. bit (7::nat) k}))"
proof -
  have "init_store (const_generator (1::int)) ''tree'' False
      = Inr \<lparr>noise_generator = const_generator (1::int), store = [],
             release_method = ''tree'', is_theta_level = False, START_TIME = 1\<rparr>"
    by (simp add: init_store_def)
  from tree_sizes_are_binary_digits [OF this, of 7 "\<lambda>k. 1"] show ?thesis .
qed

end
